theory Spec2Isabelle
  imports Main "HOL-Library.Sublist"
begin

section \<open>Python strings\<close>

text \<open>
  A Python \<open>str\<close> is a sequence of code points. It is modelled as a \<open>string\<close>
  whose characters are the code points below 256 (Latin-1), so \<open>length\<close> is
  Python's \<open>len\<close>. The classifications below are Python's for that range.
\<close>

definition LF :: char where "LF = CHR 0x0A"
definition CR :: char where "CR = CHR 0x0D"
definition SP :: char where "SP = CHR 0x20"
definition BSL :: char where "BSL = CHR 0x5C"
definition SQ :: char where "SQ = CHR 0x27"

definition code :: "char \<Rightarrow> nat" where
  "code c = of_char c"

text \<open>\<open>str.isspace\<close> for one character: TAB..CR, FS..US, space, NEL, NBSP.\<close>

definition isspace :: "char \<Rightarrow> bool" where
  "isspace c = ((9 \<le> code c \<and> code c \<le> 13) \<or> (28 \<le> code c \<and> code c \<le> 32)
                \<or> code c = 133 \<or> code c = 160)"

text \<open>\<open>str.strip()\<close>: drop leading and trailing whitespace.\<close>

definition lstrip :: "string \<Rightarrow> string" where
  "lstrip s = dropWhile isspace s"

definition rstrip :: "string \<Rightarrow> string" where
  "rstrip s = rev (dropWhile isspace (rev s))"

definition strip :: "string \<Rightarrow> string" where
  "strip s = rstrip (lstrip s)"

text \<open>\<open>str.lower()\<close>: A..Z and the Latin-1 capitals move up by 32.\<close>

definition to_lower :: "char \<Rightarrow> char" where
  "to_lower c = (if (65 \<le> code c \<and> code c \<le> 90) \<or> (192 \<le> code c \<and> code c \<le> 214)
                    \<or> (216 \<le> code c \<and> code c \<le> 222)
                 then char_of (code c + 32) else c)"

definition lower :: "string \<Rightarrow> string" where
  "lower s = map to_lower s"

text \<open>
  \<open>s.split(sep)\<close> for a separator of one character, which is how the source calls
  it (\<open>','\<close>, \<open>'-'\<close>, \<open>'='\<close>): the pieces between the separators, empty pieces
  kept, so the result is never empty.
\<close>

fun split_on :: "char \<Rightarrow> string \<Rightarrow> string list" where
  "split_on sep [] = [[]]"
| "split_on sep (c # cs) =
     (if c = sep then [] # split_on sep cs
      else (case split_on sep cs of
              [] \<Rightarrow> [[c]]
            | p # ps \<Rightarrow> (c # p) # ps))"

text \<open>
  \<open>s.replace(old, new)\<close>: every occurrence of \<open>old\<close>, found left to right without
  overlap, becomes \<open>new\<close>. With an empty \<open>old\<close> Python puts \<open>new\<close> in front of every
  character and at the end.
\<close>

fun str_replace :: "string \<Rightarrow> string \<Rightarrow> string \<Rightarrow> string" where
  "str_replace old new [] = (if old = [] then new else [])"
| "str_replace old new (c # cs) =
     (if old = [] then new @ c # str_replace old new cs
      else if prefix old (c # cs)
           then new @ str_replace old new (drop (length old - 1) cs)
           else c # str_replace old new cs)"

datatype error = ValueError | AttributeError | ComError | ReError

text \<open>
  \<open>int(s)\<close> in base 10: surrounding whitespace is ignored, one sign is allowed, and
  the digits may be grouped by single underscores. Anything else is a ValueError.
  (The interpreter's configurable cap on the number of digits is left out.)
\<close>

definition isdigit :: "char \<Rightarrow> bool" where
  "isdigit c = (48 \<le> code c \<and> code c \<le> 57)"

fun digits_val :: "nat \<Rightarrow> bool \<Rightarrow> string \<Rightarrow> nat option" where
  "digits_val acc prevd [] = (if prevd then Some acc else None)"
| "digits_val acc prevd (c # cs) =
     (if isdigit c then digits_val (10 * acc + (code c - 48)) True cs
      else if c = CHR ''_'' \<and> prevd \<and> cs \<noteq> [] \<and> isdigit (hd cs)
           then digits_val acc False cs
           else None)"

definition py_int :: "string \<Rightarrow> error + int" where
  "py_int s =
     (case strip s of
        [] \<Rightarrow> Inl ValueError
      | c # cs \<Rightarrow>
          if c = CHR ''-'' then
            (case digits_val 0 False cs of None \<Rightarrow> Inl ValueError | Some n \<Rightarrow> Inr (- int n))
          else if c = CHR ''+'' then
            (case digits_val 0 False cs of None \<Rightarrow> Inl ValueError | Some n \<Rightarrow> Inr (int n))
          else
            (case digits_val 0 False (c # cs) of None \<Rightarrow> Inl ValueError | Some n \<Rightarrow> Inr (int n)))"

text \<open>\<open>str(n)\<close> for an integer: decimal digits, with a minus sign when negative.\<close>

fun str_nat :: "nat \<Rightarrow> string" where
  "str_nat n = (if n < 10 then [char_of (48 + n)] else str_nat (n div 10) @ [char_of (48 + n mod 10)])"

definition str_int :: "int \<Rightarrow> string" where
  "str_int i = (if i < 0 then CHR ''-'' # str_nat (nat (- i)) else str_nat (nat i))"

section \<open>Slide selector\<close>

text \<open>
  Lines 65 to 76. Without \<open>--slides\<close> the list is \<open>range(1, Count + 1)\<close>. Otherwise
  the string is split on commas, every piece stripped, and the loop extends the list
  token by token: a token with a \<open>'-'\<close> must split into exactly two parts (the
  unpacking raises ValueError otherwise), both read by \<open>int\<close>, and contributes
  \<open>range(start, end + 1)\<close>; any other token is read by \<open>int\<close>. The list is sorted
  at the end.
\<close>

fun extend_slide_list :: "string list \<Rightarrow> int list \<Rightarrow> error + int list" where
  "extend_slide_list [] slide_list = Inr slide_list"
| "extend_slide_list (i # rest) slide_list =
     (if CHR ''-'' \<in> set i then
        (case split_on CHR ''-'' i of
           [start, end] \<Rightarrow>
             (case py_int start of
                Inl e \<Rightarrow> Inl e
              | Inr a \<Rightarrow>
                  (case py_int end of
                     Inl e \<Rightarrow> Inl e
                   | Inr b \<Rightarrow> extend_slide_list rest (slide_list @ [a..b])))
         | _ \<Rightarrow> Inl ValueError)
      else
        (case py_int i of
           Inl e \<Rightarrow> Inl e
         | Inr v \<Rightarrow> extend_slide_list rest (slide_list @ [v])))"

definition select_slides :: "string option \<Rightarrow> nat \<Rightarrow> error + int list" where
  "select_slides slides_arg slide_count =
     (case slides_arg of
        None \<Rightarrow> Inr [1..int slide_count]
      | Some s \<Rightarrow>
          (case extend_slide_list (map strip (split_on CHR '','' s)) [] of
             Inl e \<Rightarrow> Inl e
           | Inr slide_list \<Rightarrow> Inr (sort slide_list)))"

section \<open>Pronunciation mapping file\<close>

text \<open>
  Lines 34 to 39. The file is opened in text mode, so \<open>\r\n\<close> and a lone \<open>\r\<close>
  reach the program as \<open>\n\<close>; iterating the file yields the lines, each with its
  newline, and a last line without newline when it is not empty.
\<close>

fun universal_newlines :: "string \<Rightarrow> string" where
  "universal_newlines [] = []"
| "universal_newlines [c] = [if c = CR then LF else c]"
| "universal_newlines (c # d # ds) =
     (if c = CR \<and> d = LF then LF # universal_newlines ds
      else if c = CR then LF # universal_newlines (d # ds)
      else c # universal_newlines (d # ds))"

fun split_lines :: "string \<Rightarrow> string list" where
  "split_lines [] = []"
| "split_lines (c # cs) =
     (if c = LF then [LF] # split_lines cs
      else (case split_lines cs of
              [] \<Rightarrow> [[c]]
            | l # ls \<Rightarrow> (c # l) # ls))"

definition file_lines :: "string \<Rightarrow> string list" where
  "file_lines content = split_lines (universal_newlines content)"

text \<open>
  A \<open>dict\<close> keeps its keys in insertion order; assigning to a key that is present
  replaces the value where the key stands.
\<close>

type_synonym pronunciations = "(string \<times> string) list"

fun dict_set :: "pronunciations \<Rightarrow> string \<Rightarrow> string \<Rightarrow> pronunciations" where
  "dict_set [] k v = [(k, v)]"
| "dict_set ((k', v') # kvs) k v =
     (if k' = k then (k, v) # kvs else (k', v') # dict_set kvs k v)"

text \<open>
  The loop body unpacks \<open>line.strip().split('=')\<close> into two names: any other number
  of pieces raises ValueError.
\<close>

fun load_lines :: "string list \<Rightarrow> pronunciations \<Rightarrow> error + pronunciations" where
  "load_lines [] pm = Inr pm"
| "load_lines (line # rest) pm =
     (case split_on CHR ''='' (strip line) of
        [word, pronunciation] \<Rightarrow>
          load_lines rest (dict_set pm (strip (lower word)) (strip (lower pronunciation)))
      | _ \<Rightarrow> Inl ValueError)"

definition load_pronunciation_mapping :: "string \<Rightarrow> error + pronunciations" where
  "load_pronunciation_mapping content = load_lines (file_lines content) []"

section \<open>Notes text: normalisation and pronunciation substitution\<close>

text \<open>Line 99.\<close>

definition normalize_notes :: "string \<Rightarrow> string" where
  "normalize_notes slide_text = strip (str_replace [CR] [SP] (str_replace [LF] [SP] slide_text))"

text \<open>
  Line 103: \<open>re.sub(rf'\b{re.escape(word)}\b', pronunciation, slide_text,
  flags=re.IGNORECASE)\<close>. The escaped word matches itself literally, letter case
  ignored; \<open>\b\<close> holds at a position when exactly one of the characters on its two
  sides is a word character (alphanumeric or underscore), the ends of the text counting
  as non-word.
\<close>

definition isalnum :: "char \<Rightarrow> bool" where
  "isalnum c = ((48 \<le> code c \<and> code c \<le> 57) \<or> (65 \<le> code c \<and> code c \<le> 90)
                \<or> (97 \<le> code c \<and> code c \<le> 122)
                \<or> code c = 170 \<or> code c = 178 \<or> code c = 179 \<or> code c = 181
                \<or> code c = 185 \<or> code c = 186 \<or> code c = 188 \<or> code c = 189
                \<or> code c = 190
                \<or> (192 \<le> code c \<and> code c \<le> 214) \<or> (216 \<le> code c \<and> code c \<le> 246)
                \<or> 248 \<le> code c)"

definition isword :: "char \<Rightarrow> bool" where
  "isword c = (isalnum c \<or> c = CHR ''_'')"

definition wordy :: "char option \<Rightarrow> bool" where
  "wordy x = (case x of None \<Rightarrow> False | Some c \<Rightarrow> isword c)"

definition at_boundary :: "char option \<Rightarrow> char option \<Rightarrow> bool" where
  "at_boundary prev nxt = (wordy prev \<noteq> wordy nxt)"

definition char_at :: "string \<Rightarrow> nat \<Rightarrow> char option" where
  "char_at s i = (if i < length s then Some (s ! i) else None)"

definition ci_prefix :: "string \<Rightarrow> string \<Rightarrow> bool" where
  "ci_prefix w s = prefix (lower w) (lower s)"

text \<open>
  Does the pattern match at the start of \<open>s\<close>, where \<open>prev\<close> is the character
  that stands in front of \<open>s\<close> in the text?
\<close>

definition word_matches_at :: "string \<Rightarrow> char option \<Rightarrow> string \<Rightarrow> bool" where
  "word_matches_at w prev s =
     (ci_prefix w s \<and> at_boundary prev (char_at s 0)
      \<and> at_boundary (if w = [] then prev else char_at s (length w - 1)) (char_at s (length w)))"

text \<open>
  The scan of \<open>re.sub\<close>: at each position, left to right, a match is replaced and the
  scan goes on behind it; an empty match (only the empty word has them) is followed by
  one copied character. \<open>f\<close> gives the replacement for the matched text.
\<close>

fun re_sub_scan :: "string \<Rightarrow> (string \<Rightarrow> string) \<Rightarrow> char option \<Rightarrow> string \<Rightarrow> string" where
  "re_sub_scan w f prev [] = (if word_matches_at w prev [] then f [] else [])"
| "re_sub_scan w f prev (c # cs) =
     (if word_matches_at w prev (c # cs) then
        (if w = [] then f [] @ c # re_sub_scan w f (Some c) cs
         else f (take (length w) (c # cs))
              @ re_sub_scan w f (char_at (c # cs) (length w - 1)) (drop (length w - 1) cs))
      else c # re_sub_scan w f (Some c) cs)"

text \<open>
  The replacement is a template. \<open>re\<close> uses a template without backslash as it
  stands; one with a backslash goes through the template compiler of the \<open>re\<close>
  module, which is not code of this program: it is the parameter \<open>compile\<close>, giving
  either an error or the function from the matched text to its replacement.
\<close>

type_synonym template_compiler = "string \<Rightarrow> error + (string \<Rightarrow> string)"

definition re_sub_word :: "template_compiler \<Rightarrow> string \<Rightarrow> string \<Rightarrow> string \<Rightarrow> error + string" where
  "re_sub_word compile word repl text =
     (if BSL \<notin> set repl then Inr (re_sub_scan word (\<lambda>_. repl) None text)
      else (case compile repl of
              Inl e \<Rightarrow> Inl e
            | Inr f \<Rightarrow> Inr (re_sub_scan word f None text)))"

text \<open>Lines 102 and 103: one \<open>re.sub\<close> per entry, in the order of the dict.\<close>

fun substitute :: "template_compiler \<Rightarrow> pronunciations \<Rightarrow> string \<Rightarrow> error + string" where
  "substitute compile [] slide_text = Inr slide_text"
| "substitute compile ((word, pronunciation) # rest) slide_text =
     (case re_sub_word compile word pronunciation slide_text of
        Inl e \<Rightarrow> Inl e
      | Inr t \<Rightarrow> substitute compile rest t)"

section \<open>Arguments, environment and effects\<close>

text \<open>
  The Namespace that \<open>parse_args\<close> returns, one field per \<open>add_argument\<close>; the
  attribute of \<open>--quit_ppt\<close> is \<open>quit_ppt\<close>. The paths have gone through
  \<open>ensure_full_path\<close> and are absolute. The float \<open>silence\<close> is kept in its printed
  form, which is all the program does with it.
\<close>

datatype api = SAPI | Azure

record args =
  pptfile :: string
  output_file :: string
  slides :: "string option"
  silence :: string
  voice :: string
  pronunciation_mapping :: "string option"
  video_width :: int
  video_height :: int
  api :: api
  update_dir :: "string option"
  quit_ppt :: bool

datatype pyval = PNone | PStr string | PInt int | PFloat string | PBool bool

definition opt_str :: "string option \<Rightarrow> pyval" where
  "opt_str x = (case x of None \<Rightarrow> PNone | Some s \<Rightarrow> PStr s)"

definition namespace :: "args \<Rightarrow> (string \<times> pyval) list" where
  "namespace a =
     [(''pptfile'', PStr (pptfile a)),
      (''output'', PStr (output_file a)),
      (''slides'', opt_str (slides a)),
      (''silence'', PFloat (silence a)),
      (''voice'', PStr (voice a)),
      (''pronunciation_mapping'', opt_str (pronunciation_mapping a)),
      (''video_width'', PInt (video_width a)),
      (''video_height'', PInt (video_height a)),
      (''api'', PStr (case api a of SAPI \<Rightarrow> ''SAPI'' | Azure \<Rightarrow> ''Azure'')),
      (''update'', opt_str (update_dir a)),
      (''quit_ppt'', PBool (quit_ppt a))]"

text \<open>Reading an attribute the Namespace does not have raises AttributeError.\<close>

definition getattr :: "args \<Rightarrow> string \<Rightarrow> error + pyval" where
  "getattr a name =
     (case map_of (namespace a) name of None \<Rightarrow> Inl AttributeError | Some v \<Rightarrow> Inr v)"

definition truthy :: "pyval \<Rightarrow> bool" where
  "truthy v =
     (case v of
        PNone \<Rightarrow> False
      | PStr s \<Rightarrow> s \<noteq> []
      | PInt i \<Rightarrow> i \<noteq> 0
      | PFloat s \<Rightarrow> s \<noteq> ''0.0'' \<and> s \<noteq> ''-0.0''
      | PBool b \<Rightarrow> b)"

text \<open>\<open>args.update\<close> used as a condition (lines 52, 56, 158, 164).\<close>

definition updating :: "args \<Rightarrow> bool" where
  "updating a = truthy (opt_str (update_dir a))"

text \<open>
  What the program gets from outside: the text of the pronunciation file, the notes of
  the slides 1..Count of the presentation, the directory \<open>mkdtemp\<close> returns, the
  files that exist at the start, the answer of the Azure synthesizer for a slide and
  its text, the number of SAPI voices, the template compiler of \<open>re\<close>, and the number
  of presentations left open after this one is closed.
\<close>

datatype cancellation_reason = CancelError | EndOfStream | CancelledByUser

datatype synthesis_result =
    SynthesizingAudioCompleted
  | Canceled cancellation_reason string
  | OtherReason

record env =
  mapping_text :: string
  slide_notes :: "string list"
  mkdtemp_dir :: string
  existing :: "string set"
  azure_result :: "int \<Rightarrow> string \<Rightarrow> synthesis_result"
  sapi_voices :: int
  compile_template :: template_compiler
  presentations_left :: nat

definition show_reason :: "cancellation_reason \<Rightarrow> string" where
  "show_reason r =
     (case r of
        CancelError \<Rightarrow> ''CancellationReason.Error''
      | EndOfStream \<Rightarrow> ''CancellationReason.EndOfStream''
      | CancelledByUser \<Rightarrow> ''CancellationReason.CancelledByUser'')"

text \<open>
  Every effect on the outside is an event, recorded in order. The encoder runs carry
  the operands of their command line: \<open>RunPad silence audio_in audio_out\<close>,
  \<open>RunClip image audio video\<close>, \<open>RunConcat manifest output\<close>.
\<close>

datatype event =
    Print string
  | Mkdir string
  | OpenPresentation string
  | RunSilence string string
  | Remove string
  | Export int string int int
  | AzureSpeak string string string
  | SapiSpeak int string string
  | RunPad string string string
  | RunClip string string string
  | ClosePresentation
  | QuitPowerPoint
  | WriteFile string "string list"
  | RunConcat string string

text \<open>
  The file an event writes, and the file it deletes. The synthesizers, the export and
  the encoder are taken to write the file named as their output and nothing else; for
  the encoder this reads the command lines as they are meant, with paths free of
  characters that the shell treats specially (some operands are not quoted).
\<close>

fun written :: "event \<Rightarrow> string list" where
  "written (RunSilence duration file) = [file]"
| "written (Export n file w h) = [file]"
| "written (AzureSpeak v file text) = [file]"
| "written (SapiSpeak v file text) = [file]"
| "written (RunPad sil audio_in file) = [file]"
| "written (RunClip img audio file) = [file]"
| "written (WriteFile file ls) = [file]"
| "written (RunConcat manifest file) = [file]"
| "written (Mkdir d) = [d]"
| "written _ = []"

fun deleted :: "event \<Rightarrow> string list" where
  "deleted (Remove file) = [file]"
| "deleted _ = []"

definition touched :: "event \<Rightarrow> string list" where
  "touched ev = written ev @ deleted ev"

record state =
  files :: "string set"
  trace :: "event list"
  slide_videos :: "string list"
  total_chars :: nat

definition emit :: "event \<Rightarrow> state \<Rightarrow> state" where
  "emit ev s = s\<lparr>files := (files s - set (deleted ev)) \<union> set (written ev), trace := trace s @ [ev]\<rparr>"

section \<open>Paths\<close>

text \<open>
  \<open>os.path.join(a, b)\<close> on Windows for a relative \<open>b\<close> without drive, which is what
  lines 53 to 55, 80, 109, 115, 144 and 162 pass: a backslash goes between, unless the
  part of \<open>a\<close> behind a drive letter is empty or ends with a separator.
\<close>

definition is_sep :: "char \<Rightarrow> bool" where
  "is_sep c = (c = BSL \<or> c = CHR ''/'')"

definition join_sep :: "string \<Rightarrow> string" where
  "join_sep a =
     (let p = (if 2 \<le> length a \<and> a ! 1 = CHR '':'' then drop 2 a else a)
      in if p = [] \<or> is_sep (last p) then [] else [BSL])"

definition path_join :: "string \<Rightarrow> string \<Rightarrow> string" where
  "path_join a b = a @ join_sep a @ b"

text \<open>
  Line 49: \<open>os.path.splitext(args.output)[1][1:]\<close>. The extension starts at the last
  dot of the last path component, provided some character other than a dot stands in
  front of it in that component.
\<close>

definition container_format_of :: "string \<Rightarrow> string" where
  "container_format_of out =
     (let base = rev (takeWhile (\<lambda>c. \<not> is_sep c) (rev out));
          suffix = rev (takeWhile (\<lambda>c. c \<noteq> CHR ''.'') (rev base));
          stem = rev (drop 1 (dropWhile (\<lambda>c. c \<noteq> CHR ''.'') (rev base)))
      in if CHR ''.'' \<in> set base \<and> list_ex (\<lambda>c. c \<noteq> CHR ''.'') stem then suffix else [])"

definition slide_folder :: "string \<Rightarrow> string" where
  "slide_folder temp_dir = path_join temp_dir ''slides''"

definition audio_folder :: "string \<Rightarrow> string" where
  "audio_folder temp_dir = path_join temp_dir ''audio''"

definition video_folder :: "string \<Rightarrow> string" where
  "video_folder temp_dir = path_join temp_dir ''video''"

definition silence_file :: "string \<Rightarrow> string" where
  "silence_file temp_dir = path_join temp_dir ''silence.wav''"

definition concat_file :: "string \<Rightarrow> string" where
  "concat_file temp_dir = path_join temp_dir ''concat.txt''"

definition slide_image_file :: "string \<Rightarrow> int \<Rightarrow> string" where
  "slide_image_file temp_dir n = path_join (slide_folder temp_dir) (''slide_'' @ str_int n @ ''.png'')"

definition audio_file :: "string \<Rightarrow> int \<Rightarrow> string" where
  "audio_file temp_dir n = path_join (audio_folder temp_dir) (''audio_'' @ str_int n @ ''.wav'')"

definition audio_file_padded :: "string \<Rightarrow> int \<Rightarrow> string" where
  "audio_file_padded temp_dir n = str_replace ''.wav'' ''.m4a'' (audio_file temp_dir n)"

definition video_file :: "string \<Rightarrow> string \<Rightarrow> int \<Rightarrow> string" where
  "video_file temp_dir container_format n =
     path_join (video_folder temp_dir) (''video_'' @ str_int n @ ''.'' @ container_format)"

section \<open>Per-slide pipeline\<close>

text \<open>
  One pass of the loop body (lines 89 to 148) ends in one of three ways: the loop goes
  on with the next slide (the end of the body, or \<open>continue\<close>), it stops
  (\<open>break\<close>), or an exception leaves the program.
\<close>

datatype flow = Continue | Break | Raised error

text \<open>
  Lines 117 to 137. Azure: the synthesizer is asked, and a cancellation is logged and
  breaks the loop; any other answer lets the body go on. SAPI: the voice is
  \<open>GetVoices().Item(int(args.voice))\<close>, so a voice that is no integer raises
  ValueError and an index outside the installed voices fails in the automation call.
\<close>

definition synthesize :: "args \<Rightarrow> env \<Rightarrow> int \<Rightarrow> string \<Rightarrow> string \<Rightarrow> state \<Rightarrow> flow \<times> state" where
  "synthesize a e slide_number audio slide_text s =
     (if api a = Azure then
        (let s1 = emit (AzureSpeak (voice a) audio slide_text) s in
         case azure_result e slide_number slide_text of
           SynthesizingAudioCompleted \<Rightarrow> (Continue, s1)
         | Canceled reason error_details \<Rightarrow>
             (let s2 = emit (Print (''  Speech synthesis canceled: '' @ show_reason reason)) s1;
                  s3 = (if reason = CancelError \<and> error_details \<noteq> []
                        then emit (Print (''  Error details: '' @ error_details
                               @ ''. Did you set the speech resource key and region values?'')) s2
                        else s2)
              in (Break, s3))
         | OtherReason \<Rightarrow> (Continue, s1))
      else
        (case py_int (voice a) of
           Inl err \<Rightarrow> (Raised err, s)
         | Inr v \<Rightarrow>
             if v < 0 \<or> sapi_voices e \<le> v then (Raised ComError, s)
             else (Continue, emit (SapiSpeak v audio slide_text) s)))"

text \<open>
  Lines 139 to 148: pad the audio, remember the clip, encode it. (Line 148 joins the
  slide folder with the image path, which is absolute already, and gets that path.)
\<close>

definition make_clip :: "string \<Rightarrow> string \<Rightarrow> int \<Rightarrow> state \<Rightarrow> state" where
  "make_clip temp_dir container_format slide_number s =
     (let audio_padded = audio_file_padded temp_dir slide_number;
          s1 = emit (RunPad (silence_file temp_dir) (audio_file temp_dir slide_number) audio_padded) s;
          video = video_file temp_dir container_format slide_number;
          s2 = s1\<lparr>slide_videos := slide_videos s1 @ [video]\<rparr>;
          s3 = emit (Print (''  Creating video of slide '' @ str_int slide_number
                 @ '' with synthesized audio and slide image'')) s2
      in emit (RunClip (slide_image_file temp_dir slide_number) audio_padded video) s3)"

text \<open>Lines 107 to 112: an image already at the path is removed before the export.\<close>

definition export_image :: "args \<Rightarrow> string \<Rightarrow> int \<Rightarrow> state \<Rightarrow> state" where
  "export_image a temp_dir slide_number s =
     (let s1 = emit (Print (''  Exporting slide '' @ str_int slide_number @ '' as image'')) s;
          img = slide_image_file temp_dir slide_number;
          s2 = (if img \<in> files s1 then emit (Remove img) s1 else s1)
      in emit (Export slide_number img (video_width a) (video_height a)) s2)"

text \<open>The text that is counted and spoken: lines 99 to 103.\<close>

definition spoken_text :: "env \<Rightarrow> pronunciations \<Rightarrow> string \<Rightarrow> error + string" where
  "spoken_text e pm slide_text = substitute (compile_template e) pm (normalize_notes slide_text)"

definition slide_step ::
  "args \<Rightarrow> env \<Rightarrow> pronunciations \<Rightarrow> string \<Rightarrow> string \<Rightarrow> int \<Rightarrow> state \<Rightarrow> flow \<times> state" where
  "slide_step a e pm temp_dir container_format slide_number s =
     (let s1 = emit (Print (''Processing slide '' @ str_int slide_number)) s in
      if slide_number < 1 \<or> int (length (slide_notes e)) < slide_number then (Raised ComError, s1)
      else
        (let slide_text = slide_notes e ! nat (slide_number - 1) in
         if slide_text = [] \<or> length (strip slide_text) = 0 then
           (Continue, emit (Print (''  Skipping slide '' @ str_int slide_number
                        @ '' because no note text found'')) s1)
         else
           (case spoken_text e pm slide_text of
              Inl err \<Rightarrow> (Raised err, s1)
            | Inr t \<Rightarrow>
                (let s2 = s1\<lparr>total_chars := total_chars s1 + length t\<rparr>;
                     s3 = export_image a temp_dir slide_number s2;
                     s4 = emit (Print (''  Synthesizing audio of slide '' @ str_int slide_number)) s3
                 in case synthesize a e slide_number (audio_file temp_dir slide_number) t s4 of
                      (Continue, s5) \<Rightarrow> (Continue, make_clip temp_dir container_format slide_number s5)
                    | (Break, s5) \<Rightarrow> (Break, s5)
                    | (Raised err, s5) \<Rightarrow> (Raised err, s5)))))"

text \<open>
  The loop of line 88. The result is the error that left the program, if any, and the
  state when the loop was left.
\<close>

fun slide_loop ::
  "args \<Rightarrow> env \<Rightarrow> pronunciations \<Rightarrow> string \<Rightarrow> string \<Rightarrow> int list \<Rightarrow> state \<Rightarrow> error option \<times> state" where
  "slide_loop a e pm temp_dir container_format [] s = (None, s)"
| "slide_loop a e pm temp_dir container_format (slide_number # rest) s =
     (case slide_step a e pm temp_dir container_format slide_number s of
        (Continue, s') \<Rightarrow> slide_loop a e pm temp_dir container_format rest s'
      | (Break, s') \<Rightarrow> (None, s')
      | (Raised err, s') \<Rightarrow> (Some err, s'))"

section \<open>The program\<close>

text \<open>
  How the process ends: it runs off the end of the script, it calls \<open>exit\<close>, or an
  exception nobody handles ends it with a traceback and status 1.
\<close>

datatype outcome = Finished | Exited int | Crashed error

definition exit_status :: "outcome \<Rightarrow> int" where
  "exit_status out = (case out of Finished \<Rightarrow> 0 | Exited n \<Rightarrow> n | Crashed err \<Rightarrow> 1)"

text \<open>Lines 34 to 39.\<close>

definition load_mapping :: "args \<Rightarrow> env \<Rightarrow> error + pronunciations" where
  "load_mapping a e =
     (if truthy (opt_str (pronunciation_mapping a))
      then load_pronunciation_mapping (mapping_text e) else Inr [])"

text \<open>Line 52.\<close>

definition temp_dir_of :: "args \<Rightarrow> env \<Rightarrow> string" where
  "temp_dir_of a e = (if updating a then the (update_dir a) else mkdtemp_dir e)"

text \<open>Lines 56 to 58.\<close>

definition make_dirs :: "args \<Rightarrow> string \<Rightarrow> state \<Rightarrow> state" where
  "make_dirs a temp_dir s =
     (if \<not> updating a
      then emit (Mkdir (video_folder temp_dir))
             (emit (Mkdir (audio_folder temp_dir)) (emit (Mkdir (slide_folder temp_dir)) s))
      else s)"

text \<open>Lines 150 to 174, entered when the loop has ended or was broken.\<close>

definition finish :: "args \<Rightarrow> env \<Rightarrow> string \<Rightarrow> state \<Rightarrow> outcome \<times> state" where
  "finish a e temp_dir s =
     (let s1 = emit ClosePresentation s in
      case getattr a ''quitppt'' of
        Inl err \<Rightarrow> (Crashed err, s1)
      | Inr q \<Rightarrow>
          (let s2 = (if truthy q \<and> presentations_left e = 0 then emit QuitPowerPoint s1 else s1) in
           if length (slide_videos s2) = 0 then
             (Exited 0, emit (Print (''No slide videos ''
                 @ (if updating a then ''updated'' else ''created'') @ '', exiting'')) s2)
           else
             (let s3 = (if \<not> updating a
                        then emit (WriteFile (concat_file temp_dir)
                               (map (\<lambda>v. ''file '' @ [SQ] @ v @ [SQ] @ [LF]) (slide_videos s2))) s2
                        else s2);
                  s4 = emit (Print ''Creating full video by concatenating all slide videos'') s3;
                  s5 = emit (RunConcat (concat_file temp_dir) (output_file a)) s4;
                  s6 = emit (Print (''Total characters synthesized: '' @ str_int (int (total_chars s5)))) s5;
                  s7 = emit (Print (''Temporary files kept in '' @ temp_dir)) s6
              in (Finished, emit (Print ''Done.'') s7))))"

definition initial :: "env \<Rightarrow> state" where
  "initial e = \<lparr>files = existing e, trace = [], slide_videos = [], total_chars = 0\<rparr>"

text \<open>Lines 60 to 81: open the presentation, select the slides, make the silence file.\<close>

definition prepare :: "args \<Rightarrow> string \<Rightarrow> state \<Rightarrow> state" where
  "prepare a temp_dir s =
     emit (RunSilence (silence a) (silence_file temp_dir))
       (emit (Print (''Generating '' @ silence a @ '' seconds silence audio file'')) s)"

definition main :: "args \<Rightarrow> env \<Rightarrow> outcome \<times> state" where
  "main a e =
     (case load_mapping a e of
        Inl err \<Rightarrow> (Crashed err, initial e)
      | Inr pm \<Rightarrow>
          (let container_format = container_format_of (output_file a);
               temp_dir = temp_dir_of a e;
               s1 = make_dirs a temp_dir (initial e);
               s2 = emit (OpenPresentation (pptfile a)) s1
           in case select_slides (slides a) (length (slide_notes e)) of
                Inl err \<Rightarrow> (Crashed err, s2)
              | Inr slide_list \<Rightarrow>
                  (case slide_loop a e pm temp_dir container_format slide_list (prepare a temp_dir s2) of
                     (Some err, s3) \<Rightarrow> (Crashed err, s3)
                   | (None, s3) \<Rightarrow> finish a e temp_dir s3)))"

section \<open>The specification's wording and auxiliary notions\<close>

subsection \<open>Selector\<close>

text \<open>
  The selector as the specification words it: each token gives its indices (an
  inclusive range for a token with a \<open>'-'\<close>, one integer otherwise), the indices of
  all tokens are merged, and the result is sorted.
\<close>

definition token_indices :: "string \<Rightarrow> error + int list" where
  "token_indices t =
     (if CHR ''-'' \<in> set t then
        (case split_on CHR ''-'' t of
           [start, end] \<Rightarrow>
             (case py_int start of
                Inl e \<Rightarrow> Inl e
              | Inr a \<Rightarrow> (case py_int end of Inl e \<Rightarrow> Inl e | Inr b \<Rightarrow> Inr [a..b]))
         | _ \<Rightarrow> Inl ValueError)
      else (case py_int t of Inl e \<Rightarrow> Inl e | Inr v \<Rightarrow> Inr [v]))"



subsection \<open>Notes\<close>

text \<open>One character of the notes after line 99, as the specification reads it.\<close>

definition newline_to_space :: "char \<Rightarrow> char" where
  "newline_to_space c = (if c = LF \<or> c = CR then SP else c)"

subsection \<open>Mapping file\<close>

text \<open>
  The mapping file as the specification words it: a line is \<open>word=pronunciation\<close>
  with exactly one \<open>=\<close>, and gives the lowercased, stripped word and pronunciation.
\<close>

definition one_separator :: "string \<Rightarrow> bool" where
  "one_separator line = (count_list line CHR ''='' = 1)"

definition entry_of :: "string \<Rightarrow> string \<times> string" where
  "entry_of line =
     (strip (lower (takeWhile (\<lambda>c. c \<noteq> CHR ''='') (strip line))),
      strip (lower (drop 1 (dropWhile (\<lambda>c. c \<noteq> CHR ''='') (strip line)))))"

definition store_entry :: "string \<Rightarrow> pronunciations \<Rightarrow> pronunciations" where
  "store_entry line pm = dict_set pm (fst (entry_of line)) (snd (entry_of line))"

definition blank :: "string \<Rightarrow> bool" where
  "blank line = (strip line = [])"

definition nonblank_lines_one_separator :: "string \<Rightarrow> bool" where
  "nonblank_lines_one_separator content =
     list_all (\<lambda>line. blank line \<or> one_separator line) (file_lines content)"

definition file_with_blank_line :: string where
  "file_with_blank_line = ''a=b'' @ [LF, LF] @ ''c=d'' @ [LF]"

subsection \<open>Loop body and concrete runs\<close>

text \<open>Messages of the loop body.\<close>

definition msg_processing :: "int \<Rightarrow> string" where
  "msg_processing n = ''Processing slide '' @ str_int n"

definition msg_skipping :: "int \<Rightarrow> string" where
  "msg_skipping n = ''  Skipping slide '' @ str_int n @ '' because no note text found''"

definition msg_canceled :: "cancellation_reason \<Rightarrow> string" where
  "msg_canceled r = ''  Speech synthesis canceled: '' @ show_reason r"

definition msg_error_details :: "string \<Rightarrow> string" where
  "msg_error_details d =
     ''  Error details: '' @ d @ ''. Did you set the speech resource key and region values?''"

text \<open>The slide exists and its notes are not blank.\<close>

definition has_notes :: "env \<Rightarrow> int \<Rightarrow> bool" where
  "has_notes e n = (1 \<le> n \<and> n \<le> int (length (slide_notes e))
                    \<and> strip (slide_notes e ! nat (n - 1)) \<noteq> [])"

definition notes_blank :: "env \<Rightarrow> int \<Rightarrow> bool" where
  "notes_blank e n = (1 \<le> n \<and> n \<le> int (length (slide_notes e))
                    \<and> strip (slide_notes e ! nat (n - 1)) = [])"

text \<open>The events of lines 107 to 112 for a slide, given the files that exist.\<close>

definition export_events :: "args \<Rightarrow> string \<Rightarrow> int \<Rightarrow> string set \<Rightarrow> event list" where
  "export_events a temp_dir n fs =
     Print (''  Exporting slide '' @ str_int n @ '' as image'')
     # (if slide_image_file temp_dir n \<in> fs then [Remove (slide_image_file temp_dir n)] else [])
     @ [Export n (slide_image_file temp_dir n) (video_width a) (video_height a)]"

text \<open>The state in which the loop starts: lines 52 to 81 have run.\<close>

definition loop_start :: "args \<Rightarrow> env \<Rightarrow> state" where
  "loop_start a e =
     prepare a (temp_dir_of a e)
       (emit (OpenPresentation (pptfile a)) (make_dirs a (temp_dir_of a e) (initial e)))"

text \<open>
  Concrete runs: the default arguments with a given \<open>--slides\<close>, on a deck with the given notes, in a fresh
  temporary directory, with a synthesizer that always completes or always cancels
  with an error and no detail.
\<close>

definition temp_root :: string where
  "temp_root = ''C:'' @ [BSL] @ ''Temp'' @ [BSL] @ ''tmp1''"

definition always_completed :: "int \<Rightarrow> string \<Rightarrow> synthesis_result" where
  "always_completed n t = SynthesizingAudioCompleted"

definition always_canceled :: "int \<Rightarrow> string \<Rightarrow> synthesis_result" where
  "always_canceled n t = Canceled CancelError []"

definition no_templates :: template_compiler where
  "no_templates repl = Inl ReError"

definition cli_args :: "string option \<Rightarrow> args" where
  "cli_args sel =
     \<lparr>pptfile = ''C:'' @ [BSL] @ ''deck.pptx'', output_file = ''out.mp4'', slides = sel,
      silence = ''1.5'', voice = ''en-GB-SoniaNeural'', pronunciation_mapping = None,
      video_width = 1920, video_height = 1080, api = Azure, update_dir = None,
      quit_ppt = False\<rparr>"

definition deck :: "string list \<Rightarrow> (int \<Rightarrow> string \<Rightarrow> synthesis_result) \<Rightarrow> env" where
  "deck notes azure =
     \<lparr>mapping_text = [], slide_notes = notes, mkdtemp_dir = temp_root, existing = {},
      azure_result = azure, sapi_voices = 1, compile_template = no_templates,
      presentations_left = 0\<rparr>"

definition fresh_start_events :: "event list" where
  "fresh_start_events =
     [Mkdir (slide_folder temp_root), Mkdir (audio_folder temp_root), Mkdir (video_folder temp_root),
      OpenPresentation (''C:'' @ [BSL] @ ''deck.pptx''),
      Print ''Generating 1.5 seconds silence audio file'',
      RunSilence ''1.5'' (silence_file temp_root)]"

definition whitespace_notes :: string where
  "whitespace_notes = ''   '' @ [LF] @ ''  ''"

text \<open>
  The total the specification words: the lengths of the texts after substitution, summed
  over the selected slides that have notes.
\<close>

definition text_length :: "env \<Rightarrow> pronunciations \<Rightarrow> int \<Rightarrow> nat" where
  "text_length e pm n =
     (case spoken_text e pm (slide_notes e ! nat (n - 1)) of Inl err \<Rightarrow> 0 | Inr t \<Rightarrow> length t)"

definition expected_total :: "env \<Rightarrow> pronunciations \<Rightarrow> int list \<Rightarrow> nat" where
  "expected_total e pm sl = sum_list (map (text_length e pm) (filter (has_notes e) sl))"

text \<open>
  The synthesis of the slide's text neither cancels nor fails: Azure gives an answer
  other than a cancellation, or the SAPI voice is an index of an installed voice.
\<close>

definition synthesis_goes_through :: "args \<Rightarrow> env \<Rightarrow> pronunciations \<Rightarrow> int \<Rightarrow> bool" where
  "synthesis_goes_through a e pm n =
     (case spoken_text e pm (slide_notes e ! nat (n - 1)) of
        Inl err \<Rightarrow> False
      | Inr t \<Rightarrow>
          (if api a = Azure then
             (case azure_result e n t of Canceled r d \<Rightarrow> False | _ \<Rightarrow> True)
           else
             (case py_int (voice a) of Inl err \<Rightarrow> False | Inr v \<Rightarrow> 0 \<le> v \<and> v < sapi_voices e)))"

definition in_deck :: "env \<Rightarrow> int \<Rightarrow> bool" where
  "in_deck e n = (1 \<le> n \<and> n \<le> int (length (slide_notes e)))"

definition always_unauthorized :: "int \<Rightarrow> string \<Rightarrow> synthesis_result" where
  "always_unauthorized n t = Canceled CancelError ''Unauthorized''"

subsection \<open>Substitution\<close>

text \<open>
  Substitution as the specification words it. An occurrence of the word is a place
  where the text continues with the word, letter case ignored; it is a whole word when
  neither the character in front of it nor the character behind it is a word
  character. Whole-word occurrences are replaced left to right, everything else is
  copied, and the entries are applied in the order of the mapping.
\<close>

definition whole_word_at :: "string \<Rightarrow> char option \<Rightarrow> string \<Rightarrow> bool" where
  "whole_word_at w prev s =
     (w \<noteq> [] \<and> ci_prefix w s \<and> \<not> wordy prev \<and> \<not> wordy (char_at s (length w)))"

fun spec_replace_scan :: "string \<Rightarrow> string \<Rightarrow> char option \<Rightarrow> string \<Rightarrow> string" where
  "spec_replace_scan w p prev [] = []"
| "spec_replace_scan w p prev (c # cs) =
     (if whole_word_at w prev (c # cs)
      then p @ spec_replace_scan w p (char_at (c # cs) (length w - 1)) (drop (length w - 1) cs)
      else c # spec_replace_scan w p (Some c) cs)"

definition spec_replace :: "string \<Rightarrow> string \<Rightarrow> string \<Rightarrow> string" where
  "spec_replace w p t = spec_replace_scan w p None t"

definition spec_substitute :: "pronunciations \<Rightarrow> string \<Rightarrow> string" where
  "spec_substitute pm t = fold (\<lambda>(w, p). spec_replace w p) pm t"

text \<open>The character in front of position \<open>i\<close> of a text that follows \<open>prev\<close>.\<close>

definition char_before :: "char option \<Rightarrow> string \<Rightarrow> nat \<Rightarrow> char option" where
  "char_before prev s i = (if i = 0 then prev else Some (s ! (i - 1)))"

definition word_edges :: "string \<Rightarrow> bool" where
  "word_edges w = (w \<noteq> [] \<and> isword (hd w) \<and> isword (last w))"

definition plain_entry :: "string \<times> string \<Rightarrow> bool" where
  "plain_entry entry = (word_edges (fst entry) \<and> BSL \<notin> set (snd entry))"

subsection \<open>Artifact names\<close>






definition artifacts :: "string \<Rightarrow> string \<Rightarrow> int \<Rightarrow> string list" where
  "artifacts temp_dir cf n =
     [slide_image_file temp_dir n, audio_file temp_dir n, audio_file_padded temp_dir n,
      video_file temp_dir cf n]"

subsection \<open>Update mode\<close>

text \<open>
  Update mode. A path is owned by the run when it is the silence file or one of the
  four artifacts of a selected slide. An event is confined when it creates no directory,
  writes no file of its own (the manifest is the only one the program writes) and
  touches owned paths only.
\<close>

definition owned :: "string \<Rightarrow> string \<Rightarrow> int list \<Rightarrow> string \<Rightarrow> bool" where
  "owned td cf sl p = (p = silence_file td \<or> (\<exists>n \<in> set sl. p \<in> set (artifacts td cf n)))"

fun structural :: "event \<Rightarrow> bool" where
  "structural (Mkdir d) = True"
| "structural (WriteFile f ls) = True"
| "structural _ = False"

definition confined :: "string \<Rightarrow> string \<Rightarrow> int list \<Rightarrow> event \<Rightarrow> bool" where
  "confined td cf sl ev = (\<not> structural ev \<and> (\<forall>p \<in> set (touched ev). owned td cf sl p))"


definition frame :: "string \<Rightarrow> string \<Rightarrow> int list \<Rightarrow> string set \<Rightarrow> state \<Rightarrow> bool" where
  "frame td cf sl fs s =
     (list_all (confined td cf sl) (trace s)
      \<and> (\<forall>p. \<not> owned td cf sl p \<longrightarrow> (p \<in> files s) = (p \<in> fs)))"



section \<open>Characters\<close>

lemma code_lt: "code c < 256"
  unfolding code_def by (cases c) (simp add: of_char_def)

lemma code_char_of: "n < 256 \<Longrightarrow> code (char_of n) = n"
  by (simp add: code_def)

lemma code_to_lower:
  "code (to_lower c) =
     (if (65 \<le> code c \<and> code c \<le> 90) \<or> (192 \<le> code c \<and> code c \<le> 214)
         \<or> (216 \<le> code c \<and> code c \<le> 222)
      then code c + 32 else code c)"
  using code_lt[of c] by (simp add: to_lower_def code_char_of)

lemma to_lower_idem: "to_lower (to_lower c) = to_lower c"
proof -
  have "\<not> ((65 \<le> code (to_lower c) \<and> code (to_lower c) \<le> 90)
          \<or> (192 \<le> code (to_lower c) \<and> code (to_lower c) \<le> 214)
          \<or> (216 \<le> code (to_lower c) \<and> code (to_lower c) \<le> 222))"
    unfolding code_to_lower by auto
  then show ?thesis by (subst to_lower_def) (simp only: if_False)
qed

lemma isspace_to_lower: "isspace (to_lower c) = isspace c"
  unfolding isspace_def code_to_lower by auto

lemma isalnum_to_lower: "isalnum (to_lower c) = isalnum c"
  unfolding isalnum_def code_to_lower by auto

lemma underscore_to_lower: "(to_lower c = CHR ''_'') = (c = CHR ''_'')"
proof
  assume h: "to_lower c = CHR ''_''"
  then have "code (to_lower c) = 95" by (simp add: code_def)
  then have "code c = 95" unfolding code_to_lower by (auto split: if_splits)
  then show "c = CHR ''_''" using h by (simp add: to_lower_def)
next
  assume "c = CHR ''_''"
  then show "to_lower c = CHR ''_''" by (simp add: to_lower_def code_def)
qed

lemma isword_to_lower: "isword (to_lower c) = isword c"
  by (simp add: isword_def isalnum_to_lower underscore_to_lower)

lemma isword_ci: "to_lower a = to_lower b \<Longrightarrow> isword a = isword b"
  by (metis isword_to_lower)

section \<open>Slide selector: results\<close>





lemma inverted_range_selects_nothing:
  assumes "CHR ''-'' \<in> set t" "split_on CHR ''-'' t = [first, second]"
    "py_int first = Inr x" "py_int second = Inr y" "y < x"
  shows "token_indices t = Inr []"
  using assms by (simp add: token_indices_def)

section \<open>Notes normalisation: results\<close>

lemma str_replace_single:
  "str_replace [c] [d] s = map (\<lambda>x. if x = c then d else x) s"
  by (induction s) auto

lemma normalize_notes_map:
  "normalize_notes t = strip (map newline_to_space t)"
proof -
  have "(\<lambda>x. if x = CR then SP else x) \<circ> (\<lambda>x. if x = LF then SP else x) = newline_to_space"
    by (auto simp: fun_eq_iff newline_to_space_def LF_def CR_def SP_def)
  then show ?thesis by (simp add: normalize_notes_def str_replace_single)
qed

text \<open>
  C9, as amended. The text handed to the substitution is the notes with every newline
  and every carriage return replaced by one space each, then trimmed: the length is
  kept before trimming, so a run of \<open>k\<close> such characters between two other
  characters becomes \<open>k\<close> spaces. With an empty mapping this is the text spoken.
\<close>

theorem normalize_notes_charwise:
  "normalize_notes t = strip (map newline_to_space t)
   \<and> length (map newline_to_space t) = length t
   \<and> (\<not> isspace x \<and> \<not> isspace y \<and> set run \<subseteq> {CR, LF}
        \<longrightarrow> normalize_notes (x # run @ [y]) = x # replicate (length run) SP @ [y])
   \<and> spoken_text e [] t = Inr (normalize_notes t)"
proof -
  have run: "normalize_notes (x # run @ [y]) = x # replicate (length run) SP @ [y]"
    if h: "\<not> isspace x" "\<not> isspace y" "set run \<subseteq> {CR, LF}"
  proof -
    have xs: "newline_to_space x = x" "newline_to_space y = y"
      using h(1,2) by (auto simp: newline_to_space_def isspace_def LF_def CR_def code_def)
    have "map newline_to_space run = replicate (length run) SP"
      using h(3) by (induction run) (auto simp: newline_to_space_def)
    then have "map newline_to_space (x # run @ [y]) = x # replicate (length run) SP @ [y]"
      using xs by simp
    then show ?thesis
      using h(1,2) by (simp add: normalize_notes_map strip_def lstrip_def rstrip_def)
  qed
  show ?thesis
    using run by (simp add: normalize_notes_map spoken_text_def)
qed

theorem normalize_notes_charwise_witness:
  "normalize_notes (CHR ''a'' # [CR, LF] @ [CHR ''b'']) = CHR ''a'' # replicate (length [CR, LF]) SP @ [CHR ''b'']"
proof -
  have "\<not> isspace CHR ''a''" "\<not> isspace CHR ''b''"
    by (simp_all add: isspace_def code_def)
  moreover have "set [CR, LF] \<subseteq> {CR, LF}" by simp
  ultimately show ?thesis
    using normalize_notes_charwise[of "[CHR ''a'', CR, LF, CHR ''b'']" "CHR ''a''" "CHR ''b''" "[CR, LF]"]
    by blast
qed

text \<open>
  C9 as stated fails: the two characters \<open>\r\n\<close> between \<open>a\<close> and \<open>b\<close>
  become two spaces, not one.
\<close>

theorem crlf_becomes_two_spaces:
  "normalize_notes (''a'' @ [CR, LF] @ ''b'') = ''a  b''
   \<and> normalize_notes (''a'' @ [CR, LF] @ ''b'') \<noteq> ''a b''"
  by (simp add: normalize_notes_def strip_def lstrip_def rstrip_def isspace_def code_def
        CR_def LF_def SP_def)

section \<open>Pronunciation mapping file: results\<close>

lemma length_split_on: "length (split_on c s) = Suc (count_list s c)"
  by (induction s) (auto split: list.splits)

lemma count_list_dropWhile:
  "\<not> P c \<Longrightarrow> count_list (dropWhile P s) c = count_list s c"
  by (induction s) auto

lemma count_list_rev: "count_list (rev s) c = count_list s c"
  by (induction s) auto

lemma count_list_strip: "\<not> isspace c \<Longrightarrow> count_list (strip s) c = count_list s c"
  by (simp add: strip_def lstrip_def rstrip_def count_list_rev count_list_dropWhile)

lemma split_on_two:
  "split_on c s = [a, b] \<Longrightarrow> s = a @ c # b \<and> c \<notin> set a"
proof (induction s arbitrary: a)
  case Nil
  then show ?case by simp
next
  case (Cons x xs)
  show ?case
  proof (cases "x = c")
    case True
    with Cons.prems have "a = []" "split_on c xs = [b]" by simp_all
    moreover have "xs = b"
    proof -
      have "count_list xs c = 0"
        using length_split_on[of c xs] \<open>split_on c xs = [b]\<close> by simp
      then have "split_on c xs = [xs]"
        by (induction xs) (auto split: list.splits if_splits)
      with \<open>split_on c xs = [b]\<close> show ?thesis by simp
    qed
    ultimately show ?thesis using True by simp
  next
    case False
    with Cons.prems obtain p where p: "split_on c xs = [p, b]" "a = x # p"
      by (auto split: list.splits)
    from Cons.IH[OF p(1)] False p(2) show ?thesis by simp
  qed
qed

lemma split_on_two_parts:
  assumes "split_on c s = [a, b]"
  shows "a = takeWhile (\<lambda>x. x \<noteq> c) s" "b = drop 1 (dropWhile (\<lambda>x. x \<noteq> c) s)"
proof -
  from split_on_two[OF assms] have s: "s = a @ c # b" and a: "c \<notin> set a" by simp_all
  have "takeWhile (\<lambda>x. x \<noteq> c) (a @ c # b) = a"
    using a by (auto simp: takeWhile_append2 takeWhile_tail)
  then show "a = takeWhile (\<lambda>x. x \<noteq> c) s" using s by simp
  have "dropWhile (\<lambda>x. x \<noteq> c) (a @ c # b) = c # b"
    using a by (auto simp: dropWhile_append3)
  then show "b = drop 1 (dropWhile (\<lambda>x. x \<noteq> c) s)" using s by simp
qed

lemma equals_not_space: "\<not> isspace CHR ''=''"
  by (simp add: isspace_def code_def)

lemma split_line:
  "(\<exists>a b. split_on CHR ''='' (strip line) = [a, b]) = one_separator line"
proof -
  have "length (split_on CHR ''='' (strip line)) = Suc (count_list line CHR ''='')"
    by (simp add: length_split_on count_list_strip equals_not_space)
  then show ?thesis
    unfolding one_separator_def
    by (cases "split_on CHR ''='' (strip line)" rule: list.exhaust)
       (auto simp: length_Suc_conv)
qed


lemma load_lines_fold:
  "load_lines ls pm =
     (if list_all one_separator ls then Inr (fold store_entry ls pm) else Inl ValueError)"
proof (induction ls arbitrary: pm)
  case Nil
  show ?case by simp
next
  case (Cons l ls)
  show ?case
  proof (cases "one_separator l")
    case True
    then obtain a b where ab: "split_on CHR ''='' (strip l) = [a, b]"
      using split_line[of l] by blast
    have "store_entry l pm = dict_set pm (strip (lower a)) (strip (lower b))"
      using split_on_two_parts[OF ab] by (simp add: store_entry_def entry_of_def)
    then show ?thesis using True ab Cons.IH by simp
  next
    case False
    then have "\<nexists>a b. split_on CHR ''='' (strip l) = [a, b]"
      using split_line[of l] by blast
    then have "load_lines (l # ls) pm = Inl ValueError"
      by (auto split: list.splits)
    then show ?thesis using False by simp
  qed
qed

lemma map_of_dict_set: "map_of (dict_set pm k v) = (map_of pm)(k \<mapsto> v)"
  by (induction pm) (auto simp: fun_eq_iff)

lemma set_dict_set: "set (dict_set pm k v) \<subseteq> insert (k, v) (set pm)"
  by (induction pm) (auto split: if_splits)

lemma dropWhile_keeps: "xs \<noteq> [] \<Longrightarrow> \<not> P (hd xs) \<Longrightarrow> dropWhile P xs = xs"
  by (cases xs) auto

lemma map_of_fold_store:
  "map_of (fold store_entry ls pm) = map_of (rev (map entry_of ls) @ pm)"
proof (induction ls arbitrary: pm)
  case Nil
  show ?case by simp
next
  case (Cons l ls)
  have e: "map_of (store_entry l pm) = map_of (entry_of l # pm)"
    by (cases "entry_of l") (simp add: store_entry_def map_of_dict_set)
  have "map_of (fold store_entry (l # ls) pm) = map_of (rev (map entry_of ls) @ store_entry l pm)"
    using Cons.IH by simp
  also have "\<dots> = map_of (rev (map entry_of ls) @ entry_of l # pm)"
    by (simp only: map_of_append e)
  finally show ?case by simp
qed

lemma set_fold_store:
  "set (fold store_entry ls pm) \<subseteq> entry_of ` set ls \<union> set pm"
proof (induction ls arbitrary: pm)
  case Nil
  show ?case by simp
next
  case (Cons l ls)
  have "set (store_entry l pm) \<subseteq> insert (entry_of l) (set pm)"
    using set_dict_set[of pm "fst (entry_of l)" "snd (entry_of l)"] by (simp add: store_entry_def)
  with Cons.IH[of "store_entry l pm"] show ?case by auto
qed

lemma strip_fixed:
  assumes "s = [] \<or> (\<not> isspace (hd s) \<and> \<not> isspace (last s))"
  shows "strip s = s"
proof (cases s)
  case Nil
  then show ?thesis by (simp add: strip_def lstrip_def rstrip_def)
next
  case (Cons c cs)
  with assms have h: "\<not> isspace c" "\<not> isspace (last (c # cs))" by simp_all
  have "hd (rev (c # cs)) = last (c # cs)" by (simp only: hd_rev)
  then have "dropWhile isspace (rev (c # cs)) = rev (c # cs)"
    using h(2) by (intro dropWhile_keeps) simp_all
  then show ?thesis using h(1) Cons by (simp add: strip_def lstrip_def rstrip_def)
qed

lemma strip_ends:
  "strip s = [] \<or> (\<not> isspace (hd (strip s)) \<and> \<not> isspace (last (strip s)))"
proof -
  define t where "t = dropWhile isspace s"
  define u where "u = dropWhile isspace (rev t)"
  have su: "strip s = rev u" by (simp add: strip_def lstrip_def rstrip_def t_def u_def)
  show ?thesis
  proof (cases "u = []")
    case True
    then show ?thesis using su by simp
  next
    case False
    then have l: "\<not> isspace (hd u)" unfolding u_def by (metis hd_dropWhile)
    have "rev t = takeWhile isspace (rev t) @ u" by (simp add: u_def)
    then have "t = rev u @ rev (takeWhile isspace (rev t))"
      by (metis rev_append rev_rev_ident)
    then have "hd t = hd (rev u)" using False by (metis hd_append2 rev_is_Nil_conv)
    moreover have "t \<noteq> []" using False u_def by auto
    then have "\<not> isspace (hd t)" unfolding t_def by (metis hd_dropWhile)
    ultimately have "\<not> isspace (hd (rev u))" by simp
    moreover have "last (rev u) = hd u" using False by (simp add: last_rev)
    ultimately show ?thesis using su l by simp
  qed
qed

lemma strip_idem: "strip (strip s) = strip s"
  using strip_fixed[OF strip_ends] .

lemma strip_lower: "strip (lower s) = lower (strip s)"
proof -
  have c: "isspace \<circ> to_lower = isspace" by (simp add: fun_eq_iff isspace_to_lower)
  show ?thesis
    by (simp add: strip_def lstrip_def rstrip_def lower_def dropWhile_map rev_map c)
qed

lemma lower_idem: "lower (lower s) = lower s"
  by (simp add: lower_def to_lower_idem)

lemma entry_of_normal:
  "entry_of l = (k, v) \<Longrightarrow> strip k = k \<and> lower k = k \<and> strip v = v \<and> lower v = v"
  by (auto simp: entry_of_def strip_idem strip_lower lower_idem)

lemma main_load_failure:
  "load_mapping a e = Inl err \<Longrightarrow> main a e = (Crashed err, initial e)"
  by (simp add: main_def)

text \<open>
  C8, as amended. Loading fails, with ValueError and with nothing done before it, if and
  only if some line of the file, blank lines included, does not contain exactly one
  \<open>=\<close>. A file that loads gives the table of its lines' entries, a later line
  winning over an earlier one with the same word, and every key and value in it is
  lowercased and stripped.
\<close>

theorem mapping_file_loading:
  "(load_pronunciation_mapping content = Inl ValueError)
     = (\<not> list_all one_separator (file_lines content))
   \<and> (load_pronunciation_mapping content = Inl err \<longrightarrow> err = ValueError)
   \<and> (load_pronunciation_mapping content = Inr pm \<longrightarrow>
        map_of pm = map_of (rev (map entry_of (file_lines content)))
        \<and> (\<forall>(k, v) \<in> set pm. strip k = k \<and> lower k = k \<and> strip v = v \<and> lower v = v))
   \<and> (load_mapping a e = Inl err \<longrightarrow> main a e = (Crashed err, initial e) \<and> trace (initial e) = [])"
proof -
  have l: "load_pronunciation_mapping content =
      (if list_all one_separator (file_lines content)
       then Inr (fold store_entry (file_lines content) []) else Inl ValueError)"
    by (simp add: load_pronunciation_mapping_def load_lines_fold)
  have n: "\<forall>(k, v) \<in> set (fold store_entry (file_lines content) []).
             strip k = k \<and> lower k = k \<and> strip v = v \<and> lower v = v"
  proof (clarify)
    fix k v
    assume "(k, v) \<in> set (fold store_entry (file_lines content) [])"
    then obtain l where "entry_of l = (k, v)"
      using set_fold_store[of "file_lines content" "[]"] by auto
    then show "strip k = k \<and> lower k = k \<and> strip v = v \<and> lower v = v"
      by (rule entry_of_normal)
  qed
  have m: "map_of (fold store_entry (file_lines content) [])
           = map_of (rev (map entry_of (file_lines content)))"
    using map_of_fold_store[of "file_lines content" "[]"] by simp
  have t: "trace (initial e) = []" by (simp add: initial_def)
  show ?thesis
    using l n m t main_load_failure[of a e err] by (auto split: if_splits)
qed

theorem mapping_file_loading_witness:
  "load_pronunciation_mapping (''FDAT = effdutt'' @ [LF] @ ''fdat=F D'' @ [LF])
     = Inr [(''fdat'', ''f d'')]
   \<and> map_of [(''fdat'', ''f d'')]
     = map_of (rev (map entry_of (file_lines (''FDAT = effdutt'' @ [LF] @ ''fdat=F D'' @ [LF]))))
   \<and> strip ''fdat'' = ''fdat'' \<and> lower ''fdat'' = ''fdat''"
proof -
  have v: "load_pronunciation_mapping (''FDAT = effdutt'' @ [LF] @ ''fdat=F D'' @ [LF])
     = Inr [(''fdat'', ''f d'')]"
    by code_simp
  from mapping_file_loading[of "''FDAT = effdutt'' @ [LF] @ ''fdat=F D'' @ [LF]" _ "[(''fdat'', ''f d'')]"] v
  show ?thesis by auto
qed

text \<open>
  C8 as stated fails: in this file every line that is not blank has exactly one
  \<open>=\<close>, and loading it raises ValueError at the blank line.
\<close>

theorem blank_line_fails_loading:
  "nonblank_lines_one_separator file_with_blank_line
   \<and> load_pronunciation_mapping file_with_blank_line = Inl ValueError"
  by code_simp

section \<open>The per-slide loop: results\<close>

lemma emit_fields [simp]:
  "trace (emit ev s) = trace s @ [ev]"
  "slide_videos (emit ev s) = slide_videos s"
  "total_chars (emit ev s) = total_chars s"
  "files (emit ev s) = (files s - set (deleted ev)) \<union> set (written ev)"
  by (simp_all add: emit_def)

lemma emit_Print_files [simp]: "files (emit (Print m) s) = files s"
  by (simp add: emit_def)

lemma strip_Nil [simp]: "strip [] = []"
  by (simp add: strip_def lstrip_def rstrip_def)

lemma slide_step_blank:
  assumes "notes_blank e n"
  shows "slide_step a e pm td cf n s
         = (Continue, emit (Print (msg_skipping n)) (emit (Print (msg_processing n)) s))"
  using assms
  by (simp add: slide_step_def notes_blank_def msg_skipping_def msg_processing_def Let_def)

lemma export_image_fields [simp]:
  "trace (export_image a td n s) = trace s @ export_events a td n (files s)"
  "slide_videos (export_image a td n s) = slide_videos s"
  "total_chars (export_image a td n s) = total_chars s"
  by (simp_all add: export_image_def export_events_def Let_def)

lemma slide_step_spoken:
  assumes "has_notes e n" "spoken_text e pm (slide_notes e ! nat (n - 1)) = Inr t"
  shows "slide_step a e pm td cf n s =
     (case synthesize a e n (audio_file td n) t
             (emit (Print (''  Synthesizing audio of slide '' @ str_int n))
                (export_image a td n
                   ((emit (Print (msg_processing n)) s)\<lparr>total_chars := total_chars s + length t\<rparr>))) of
        (Continue, s5) \<Rightarrow> (Continue, make_clip td cf n s5)
      | (Break, s5) \<Rightarrow> (Break, s5)
      | (Raised err, s5) \<Rightarrow> (Raised err, s5))"
proof -
  from assms(1) have r: "\<not> (n < 1 \<or> int (length (slide_notes e)) < n)"
    and nb: "slide_notes e ! nat (n - 1) \<noteq> []" "strip (slide_notes e ! nat (n - 1)) \<noteq> []"
    by (auto simp: has_notes_def)
  show ?thesis
    unfolding slide_step_def Let_def msg_processing_def
    using r nb assms(2) by simp
qed

lemma synthesize_canceled:
  assumes "api a = Azure" "azure_result e n t = Canceled r d"
  shows "fst (synthesize a e n audio t s) = Break"
    and "trace (snd (synthesize a e n audio t s))
         = trace s @ [AzureSpeak (voice a) audio t, Print (msg_canceled r)]
           @ (if r = CancelError \<and> d \<noteq> [] then [Print (msg_error_details d)] else [])"
    and "slide_videos (snd (synthesize a e n audio t s)) = slide_videos s"
    and "total_chars (snd (synthesize a e n audio t s)) = total_chars s"
  using assms by (simp_all add: synthesize_def Let_def msg_canceled_def msg_error_details_def)

lemma slide_step_canceled:
  assumes "api a = Azure" "has_notes e n"
    "spoken_text e pm (slide_notes e ! nat (n - 1)) = Inr t"
    "azure_result e n t = Canceled r d"
  shows "fst (slide_step a e pm td cf n s) = Break"
    and "trace (snd (slide_step a e pm td cf n s))
         = trace s @ [Print (msg_processing n)] @ export_events a td n (files s)
           @ [Print (''  Synthesizing audio of slide '' @ str_int n),
              AzureSpeak (voice a) (audio_file td n) t, Print (msg_canceled r)]
           @ (if r = CancelError \<and> d \<noteq> [] then [Print (msg_error_details d)] else [])"
    and "slide_videos (snd (slide_step a e pm td cf n s)) = slide_videos s"
    and "total_chars (snd (slide_step a e pm td cf n s)) = total_chars s + length t"
proof -
  define s4 where "s4 = emit (Print (''  Synthesizing audio of slide '' @ str_int n))
                (export_image a td n
                   ((emit (Print (msg_processing n)) s)\<lparr>total_chars := total_chars s + length t\<rparr>))"
  obtain fl s5 where sy: "synthesize a e n (audio_file td n) t s4 = (fl, s5)"
    by (cases "synthesize a e n (audio_file td n) t s4")
  from synthesize_canceled[OF assms(1,4), of "audio_file td n" s4] sy
  have fl: "fl = Break"
    and tr: "trace s5 = trace s4 @ [AzureSpeak (voice a) (audio_file td n) t, Print (msg_canceled r)]
           @ (if r = CancelError \<and> d \<noteq> [] then [Print (msg_error_details d)] else [])"
    and sv: "slide_videos s5 = slide_videos s4" and tc: "total_chars s5 = total_chars s4"
    by simp_all
  have st: "slide_step a e pm td cf n s = (Break, s5)"
    using slide_step_spoken[OF assms(2,3), of a td cf s] sy fl by (simp add: s4_def)
  show "fst (slide_step a e pm td cf n s) = Break" using st by simp
  show "slide_videos (snd (slide_step a e pm td cf n s)) = slide_videos s"
    using st sv by (simp add: s4_def)
  show "total_chars (snd (slide_step a e pm td cf n s)) = total_chars s + length t"
    using st tc by (simp add: s4_def)
  show "trace (snd (slide_step a e pm td cf n s))
         = trace s @ [Print (msg_processing n)] @ export_events a td n (files s)
           @ [Print (''  Synthesizing audio of slide '' @ str_int n),
              AzureSpeak (voice a) (audio_file td n) t, Print (msg_canceled r)]
           @ (if r = CancelError \<and> d \<noteq> [] then [Print (msg_error_details d)] else [])"
    using st tr by (simp add: s4_def)
qed

lemma slide_loop_break:
  "fst (slide_step a e pm td cf n s) = Break \<Longrightarrow>
   slide_loop a e pm td cf (n # rest) s = (None, snd (slide_step a e pm td cf n s))"
  by (cases "slide_step a e pm td cf n s") simp

lemma slide_loop_continue:
  "fst (slide_step a e pm td cf n s) = Continue \<Longrightarrow>
   slide_loop a e pm td cf (n # rest) s = slide_loop a e pm td cf rest (snd (slide_step a e pm td cf n s))"
  by (cases "slide_step a e pm td cf n s") simp

lemma finish_raises:
  "finish a e td s = (Crashed AttributeError, emit ClosePresentation s)"
  by (simp add: finish_def getattr_def namespace_def Let_def)

lemma main_exit_status: "exit_status (fst (main a e)) = 1"
  by (simp add: main_def finish_raises exit_status_def Let_def split: sum.splits prod.splits option.splits)


lemma main_after_loop:
  assumes "load_mapping a e = Inr pm"
    "select_slides (slides a) (length (slide_notes e)) = Inr sl"
    "slide_loop a e pm (temp_dir_of a e) (container_format_of (output_file a)) sl (loop_start a e)
     = (None, s)"
  shows "main a e = (Crashed AttributeError, emit ClosePresentation s)"
  using assms by (simp add: main_def loop_start_def finish_raises Let_def)

lemma default_run_facts:
  "load_mapping (cli_args sel) (deck notes az) = Inr []"
  "temp_dir_of (cli_args sel) (deck notes az) = temp_root"
  "trace (loop_start (cli_args sel) (deck notes az)) = fresh_start_events"
  "slide_videos (loop_start (cli_args sel) (deck notes az)) = []"
  "total_chars (loop_start (cli_args sel) (deck notes az)) = 0"
  "files (loop_start (cli_args sel) (deck notes az))
     = {slide_folder temp_root, audio_folder temp_root, video_folder temp_root, silence_file temp_root}"
  "slide_notes (deck notes az) = notes"
  "azure_result (deck notes az) = az"
  "api (cli_args sel) = Azure"
  "slides (cli_args sel) = sel"
  "voice (cli_args sel) = ''en-GB-SoniaNeural''"
  "video_width (cli_args sel) = 1920"
  "video_height (cli_args sel) = 1080"
  by (auto simp: load_mapping_def cli_args_def deck_def opt_str_def truthy_def
        temp_dir_of_def updating_def loop_start_def prepare_def make_dirs_def initial_def
        fresh_start_events_def)

text \<open>
  C5. A selected slide whose notes are empty or only whitespace changes nothing but the
  log: the step adds the two messages and no other event (no image, audio or clip), the
  files, the clip list and the character counter stay as they were, and the loop goes
  on with the next index.
\<close>

theorem blank_notes_skip_slide:
  assumes "notes_blank e n"
  shows "slide_step a e pm td cf n s
           = (Continue, s\<lparr>trace := trace s @ [Print (msg_processing n), Print (msg_skipping n)]\<rparr>)
         \<and> slide_loop a e pm td cf (n # rest) s
           = slide_loop a e pm td cf rest
               (s\<lparr>trace := trace s @ [Print (msg_processing n), Print (msg_skipping n)]\<rparr>)"
proof -
  have eq: "emit (Print (msg_skipping n)) (emit (Print (msg_processing n)) s)
        = s\<lparr>trace := trace s @ [Print (msg_processing n), Print (msg_skipping n)]\<rparr>"
    by (simp add: emit_def)
  have st: "slide_step a e pm td cf n s
        = (Continue, s\<lparr>trace := trace s @ [Print (msg_processing n), Print (msg_skipping n)]\<rparr>)"
    using slide_step_blank[OF assms, of a pm td cf s] by (simp only: eq)
  show ?thesis using st by simp
qed

theorem blank_notes_skip_slide_witness:
  "slide_step (cli_args None) (deck [whitespace_notes] always_completed) [] temp_root ''mp4'' 1
     (initial (deck [whitespace_notes] always_completed))
   = (Continue, (initial (deck [whitespace_notes] always_completed))
        \<lparr>trace := trace (initial (deck [whitespace_notes] always_completed))
            @ [Print (msg_processing 1), Print (msg_skipping 1)]\<rparr>)"
proof -
  have "strip whitespace_notes = []"
    by (simp add: whitespace_notes_def strip_def lstrip_def rstrip_def isspace_def code_def LF_def)
  then have "notes_blank (deck [whitespace_notes] always_completed) 1"
    by (simp add: notes_blank_def deck_def)
  from blank_notes_skip_slide[OF this] show ?thesis by blast
qed


lemma small_numbers:
  "str_int 1 = ''1''" "str_int 2 = ''2''"
  by code_simp+

lemma plain_text_spoken:
  "spoken_text (deck notes az) [] ''Hello'' = Inr ''Hello''"
  "spoken_text (deck notes az) [] ''World'' = Inr ''World''"
  by (simp_all add: spoken_text_def normalize_notes_def strip_def lstrip_def rstrip_def
        isspace_def code_def LF_def CR_def)

lemma fresh_image_absent:
  "slide_image_file temp_root 1
     \<notin> {slide_folder temp_root, audio_folder temp_root, video_folder temp_root, silence_file temp_root}"
  by code_simp

text \<open>
  C1: the run in which the only slide has empty notes, so that no clip is produced. The
  loop skips the slide, the presentation is closed, and reading \<open>args.quitppt\<close> (line
  154) raises AttributeError: the program ends with a traceback and status 1, before the
  check of line 157 that would print the message and exit with status 0.
\<close>

theorem zero_clip_run_crashes:
  "fst (main (cli_args None) (deck [[]] always_completed)) = Crashed AttributeError
   \<and> exit_status (fst (main (cli_args None) (deck [[]] always_completed))) = 1
   \<and> slide_videos (snd (main (cli_args None) (deck [[]] always_completed))) = []
   \<and> trace (snd (main (cli_args None) (deck [[]] always_completed)))
     = fresh_start_events
       @ [Print ''Processing slide 1'', Print ''  Skipping slide 1 because no note text found'',
          ClosePresentation]"
proof -
  let ?a = "cli_args None" and ?e = "deck [[]] always_completed"
  have sel: "select_slides (slides ?a) (length (slide_notes ?e)) = Inr [1]"
    by (simp add: default_run_facts select_slides_def)
  have nb: "notes_blank ?e 1" by (simp add: notes_blank_def default_run_facts)
  have lp: "slide_loop ?a ?e [] (temp_dir_of ?a ?e) (container_format_of (output_file ?a)) [1]
              (loop_start ?a ?e)
            = (None, emit (Print (msg_skipping 1)) (emit (Print (msg_processing 1)) (loop_start ?a ?e)))"
    using slide_step_blank[OF nb] by simp
  have m: "main ?a ?e = (Crashed AttributeError,
             emit ClosePresentation
               (emit (Print (msg_skipping 1)) (emit (Print (msg_processing 1)) (loop_start ?a ?e))))"
    by (rule main_after_loop[OF default_run_facts(1) sel lp])
  show ?thesis
    by (simp add: m exit_status_def default_run_facts msg_skipping_def msg_processing_def small_numbers)
qed

text \<open>
  C10: \<open>--slides 5-3\<close>. The inverted range parses and selects nothing, the loop does
  nothing, and the program then fails at line 154 as in every run: the check of line
  157 for an empty clip list is not reached.
\<close>

theorem inverted_range_run_crashes:
  "select_slides (Some ''5-3'') 3 = Inr []
   \<and> fst (main (cli_args (Some ''5-3'')) (deck [''One'', ''Two'', ''Three''] always_completed))
     = Crashed AttributeError
   \<and> trace (snd (main (cli_args (Some ''5-3'')) (deck [''One'', ''Two'', ''Three''] always_completed)))
     = fresh_start_events @ [ClosePresentation]"
proof -
  let ?a = "cli_args (Some ''5-3'')" and ?e = "deck [''One'', ''Two'', ''Three''] always_completed"
  have s0: "select_slides (Some ''5-3'') n = Inr []" for n by code_simp
  then have sel: "select_slides (slides ?a) (length (slide_notes ?e)) = Inr []"
    by (simp add: default_run_facts)
  have lp: "slide_loop ?a ?e [] (temp_dir_of ?a ?e) (container_format_of (output_file ?a)) []
              (loop_start ?a ?e) = (None, loop_start ?a ?e)"
    by simp
  have m: "main ?a ?e = (Crashed AttributeError, emit ClosePresentation (loop_start ?a ?e))"
    by (rule main_after_loop[OF default_run_facts(1) sel lp])
  show ?thesis by (simp add: m s0 default_run_facts)
qed


lemma hello_has_notes:
  "has_notes (deck [''Hello'', ''World''] az) 1"
  "has_notes (deck [''Hello'', ''World''] az) 2"
  by (simp_all add: has_notes_def deck_def strip_def lstrip_def rstrip_def isspace_def code_def)

lemma mp4_format: "container_format_of (output_file (cli_args sel)) = ''mp4''"
  unfolding cli_args_def by code_simp

lemma fresh_export_events:
  "export_events (cli_args sel) temp_root 1
      {slide_folder temp_root, audio_folder temp_root, video_folder temp_root, silence_file temp_root}
   = [Print ''  Exporting slide 1 as image'', Export 1 (slide_image_file temp_root 1) 1920 1080]"
  using fresh_image_absent
  by (simp add: export_events_def default_run_facts small_numbers)

lemma canceled_run:
  assumes "az 1 ''Hello'' = Canceled r d"
  shows "main (cli_args None) (deck [''Hello'', ''World''] az)
         = (Crashed AttributeError,
            emit ClosePresentation
              (snd (slide_step (cli_args None) (deck [''Hello'', ''World''] az) [] temp_root ''mp4'' 1
                      (loop_start (cli_args None) (deck [''Hello'', ''World''] az)))))"
proof -
  let ?a = "cli_args None" and ?e = "deck [''Hello'', ''World''] az"
  have sel: "select_slides (slides ?a) (length (slide_notes ?e)) = Inr [1, 2]"
    by (simp add: default_run_facts select_slides_def upto_rec1)
  have sp: "spoken_text ?e [] (slide_notes ?e ! nat (1 - 1)) = Inr ''Hello''"
    by (simp add: default_run_facts plain_text_spoken)
  have az: "azure_result ?e 1 ''Hello'' = Canceled r d"
    using assms by (simp add: default_run_facts)
  have ap: "api ?a = Azure" by (simp add: default_run_facts)
  have br: "fst (slide_step ?a ?e [] temp_root ''mp4'' 1 (loop_start ?a ?e)) = Break"
    by (rule slide_step_canceled(1)[OF ap hello_has_notes(1) sp az])
  have lp: "slide_loop ?a ?e [] (temp_dir_of ?a ?e) (container_format_of (output_file ?a)) [1, 2]
              (loop_start ?a ?e)
            = (None, snd (slide_step ?a ?e [] temp_root ''mp4'' 1 (loop_start ?a ?e)))"
    using slide_loop_break[OF br] by (simp add: default_run_facts mp4_format)
  show ?thesis by (rule main_after_loop[OF default_run_facts(1) sel lp])
qed

lemma canceled_run_trace:
  assumes "az 1 ''Hello'' = Canceled r d"
  shows "trace (snd (slide_step (cli_args None) (deck [''Hello'', ''World''] az) [] temp_root ''mp4'' 1
                      (loop_start (cli_args None) (deck [''Hello'', ''World''] az))))
         = fresh_start_events
           @ [Print ''Processing slide 1'', Print ''  Exporting slide 1 as image'',
              Export 1 (slide_image_file temp_root 1) 1920 1080,
              Print ''  Synthesizing audio of slide 1'',
              AzureSpeak ''en-GB-SoniaNeural'' (audio_file temp_root 1) ''Hello'',
              Print (msg_canceled r)]
           @ (if r = CancelError \<and> d \<noteq> [] then [Print (msg_error_details d)] else [])"
proof -
  let ?a = "cli_args None" and ?e = "deck [''Hello'', ''World''] az"
  have sp: "spoken_text ?e [] (slide_notes ?e ! nat (1 - 1)) = Inr ''Hello''"
    by (simp add: default_run_facts plain_text_spoken)
  have az: "azure_result ?e 1 ''Hello'' = Canceled r d"
    using assms by (simp add: default_run_facts)
  have ap: "api ?a = Azure" by (simp add: default_run_facts)
  show ?thesis
    unfolding slide_step_canceled(2)[OF ap hello_has_notes(1) sp az]
    by (simp add: default_run_facts fresh_export_events msg_processing_def small_numbers)
qed

text \<open>
  C2, as amended. In Azure mode, when the synthesis of a slide's text is reported
  cancelled, the log gets the reason, and the error detail with the credential hint when
  the reason is an error and the detail is not empty; the loop ends there, whatever
  slides remain, with the clips recorded so far and no clip for the cancelled slide.
\<close>

theorem cancellation_breaks_loop:
  assumes "api a = Azure" "has_notes e n"
    "spoken_text e pm (slide_notes e ! nat (n - 1)) = Inr t"
    "azure_result e n t = Canceled r d"
  shows "fst (slide_loop a e pm td cf (n # rest) s) = None
         \<and> slide_loop a e pm td cf (n # rest) s = slide_loop a e pm td cf [n] s
         \<and> slide_videos (snd (slide_loop a e pm td cf (n # rest) s)) = slide_videos s
         \<and> trace (snd (slide_loop a e pm td cf (n # rest) s))
           = trace s @ [Print (msg_processing n)] @ export_events a td n (files s)
             @ [Print (''  Synthesizing audio of slide '' @ str_int n),
                AzureSpeak (voice a) (audio_file td n) t, Print (msg_canceled r)]
             @ (if r = CancelError \<and> d \<noteq> [] then [Print (msg_error_details d)] else [])"
proof -
  note c = slide_step_canceled[OF assms, of td cf s]
  have l: "slide_loop a e pm td cf (n # xs) s = (None, snd (slide_step a e pm td cf n s))" for xs
    by (rule slide_loop_break[OF c(1)])
  show ?thesis
    unfolding l using c(2,3) by simp
qed

theorem cancellation_breaks_loop_witness:
  "fst (slide_loop (cli_args None) (deck [''Hello'', ''World''] always_unauthorized) [] temp_root ''mp4''
          (1 # [2]) (loop_start (cli_args None) (deck [''Hello'', ''World''] always_unauthorized))) = None
   \<and> slide_videos (snd (slide_loop (cli_args None) (deck [''Hello'', ''World''] always_unauthorized) []
          temp_root ''mp4'' (1 # [2])
          (loop_start (cli_args None) (deck [''Hello'', ''World''] always_unauthorized)))) = []
   \<and> trace (snd (slide_loop (cli_args None) (deck [''Hello'', ''World''] always_unauthorized) []
          temp_root ''mp4'' (1 # [2])
          (loop_start (cli_args None) (deck [''Hello'', ''World''] always_unauthorized))))
     = fresh_start_events
       @ [Print ''Processing slide 1'', Print ''  Exporting slide 1 as image'',
          Export 1 (slide_image_file temp_root 1) 1920 1080,
          Print ''  Synthesizing audio of slide 1'',
          AzureSpeak ''en-GB-SoniaNeural'' (audio_file temp_root 1) ''Hello'',
          Print ''  Speech synthesis canceled: CancellationReason.Error'',
          Print ''  Error details: Unauthorized. Did you set the speech resource key and region values?'']"
proof -
  let ?a = "cli_args None" and ?e = "deck [''Hello'', ''World''] always_unauthorized"
  have sp: "spoken_text ?e [] (slide_notes ?e ! nat (1 - 1)) = Inr ''Hello''"
    by (simp add: default_run_facts plain_text_spoken)
  have az: "azure_result ?e 1 ''Hello'' = Canceled CancelError ''Unauthorized''"
    by (simp add: default_run_facts always_unauthorized_def)
  have ap: "api ?a = Azure" by (simp add: default_run_facts)
  note w = cancellation_breaks_loop[OF ap hello_has_notes(1) sp az,
      where td = temp_root and cf = "''mp4''" and rest = "[2]" and s = "loop_start ?a ?e"]
  show ?thesis
    using w[THEN conjunct1] w[THEN conjunct2, THEN conjunct2]
    by (simp add: default_run_facts fresh_export_events msg_processing_def msg_canceled_def
          msg_error_details_def show_reason_def small_numbers del: slide_loop.simps)
qed

text \<open>
  C2 as stated fails: the first slide's synthesis is cancelled by an error that carries
  no detail. The reason is logged without a credential hint, and after the loop the
  presentation is closed and the program fails at line 154: no final assembly is run.
\<close>

theorem cancellation_without_detail_run:
  "fst (main (cli_args None) (deck [''Hello'', ''World''] always_canceled)) = Crashed AttributeError
   \<and> trace (snd (main (cli_args None) (deck [''Hello'', ''World''] always_canceled)))
     = fresh_start_events
       @ [Print ''Processing slide 1'', Print ''  Exporting slide 1 as image'',
          Export 1 (slide_image_file temp_root 1) 1920 1080,
          Print ''  Synthesizing audio of slide 1'',
          AzureSpeak ''en-GB-SoniaNeural'' (audio_file temp_root 1) ''Hello'',
          Print ''  Speech synthesis canceled: CancellationReason.Error'',
          ClosePresentation]"
proof -
  have c: "always_canceled 1 ''Hello'' = Canceled CancelError []"
    by (simp add: always_canceled_def)
  show ?thesis
    by (simp add: canceled_run[of always_canceled, OF c] canceled_run_trace[of always_canceled, OF c]
          msg_canceled_def show_reason_def)
qed


lemma make_clip_total [simp]: "total_chars (make_clip td cf n s) = total_chars s"
  by (simp add: make_clip_def Let_def)

lemma synthesize_total [simp]: "total_chars (snd (synthesize a e n audio t s)) = total_chars s"
  by (simp add: synthesize_def Let_def split: synthesis_result.splits sum.splits)

lemma synthesize_goes_through:
  assumes "synthesis_goes_through a e pm n"
    "spoken_text e pm (slide_notes e ! nat (n - 1)) = Inr t"
  shows "fst (synthesize a e n audio t s) = Continue"
  using assms
  by (auto simp: synthesis_goes_through_def synthesize_def Let_def
        split: synthesis_result.splits sum.splits if_splits)

lemma slide_step_goes_through:
  assumes "has_notes e n" "synthesis_goes_through a e pm n"
  shows "fst (slide_step a e pm td cf n s) = Continue"
    and "total_chars (snd (slide_step a e pm td cf n s)) = total_chars s + text_length e pm n"
proof -
  from assms(2) obtain t where sp: "spoken_text e pm (slide_notes e ! nat (n - 1)) = Inr t"
    by (auto simp: synthesis_goes_through_def split: sum.splits)
  define s4 where "s4 = emit (Print (''  Synthesizing audio of slide '' @ str_int n))
                (export_image a td n
                   ((emit (Print (msg_processing n)) s)\<lparr>total_chars := total_chars s + length t\<rparr>))"
  obtain fl s5 where sy: "synthesize a e n (audio_file td n) t s4 = (fl, s5)"
    by (cases "synthesize a e n (audio_file td n) t s4")
  have fl: "fl = Continue"
    using synthesize_goes_through[OF assms(2) sp, of "audio_file td n" s4] sy by simp
  have "total_chars (snd (fl, s5)) = total_chars s4"
    unfolding sy[symmetric] by simp
  then have tc: "total_chars s5 = total_chars s + length t"
    by (simp add: s4_def)
  have st: "slide_step a e pm td cf n s = (Continue, make_clip td cf n s5)"
    using slide_step_spoken[OF assms(1) sp, of a td cf s] sy fl by (simp add: s4_def)
  show "fst (slide_step a e pm td cf n s) = Continue" using st by simp
  show "total_chars (snd (slide_step a e pm td cf n s)) = total_chars s + text_length e pm n"
    using st tc sp by (simp add: text_length_def)
qed

lemma loop_total:
  assumes "\<forall>n \<in> set sl. in_deck e n"
    "\<forall>n \<in> set sl. has_notes e n \<longrightarrow> synthesis_goes_through a e pm n"
  shows "fst (slide_loop a e pm td cf sl s) = None
         \<and> total_chars (snd (slide_loop a e pm td cf sl s)) = total_chars s + expected_total e pm sl"
  using assms
proof (induction sl arbitrary: s)
  case Nil
  show ?case by (simp add: expected_total_def)
next
  case (Cons n sl)
  from Cons.prems have ih: "fst (slide_loop a e pm td cf sl s') = None
         \<and> total_chars (snd (slide_loop a e pm td cf sl s')) = total_chars s' + expected_total e pm sl"
    for s' using Cons.IH by simp
  show ?case
  proof (cases "has_notes e n")
    case True
    with Cons.prems have g: "synthesis_goes_through a e pm n" by simp
    note st = slide_step_goes_through[OF True g, of td cf s]
    show ?thesis
      unfolding slide_loop_continue[OF st(1)]
      using ih[of "snd (slide_step a e pm td cf n s)"] st(2) True
      by (simp add: expected_total_def)
  next
    case False
    with Cons.prems have nb: "notes_blank e n"
      by (simp add: in_deck_def has_notes_def notes_blank_def)
    have st: "slide_step a e pm td cf n s
              = (Continue, emit (Print (msg_skipping n)) (emit (Print (msg_processing n)) s))"
      by (rule slide_step_blank[OF nb])
    show ?thesis
      using ih[of "emit (Print (msg_skipping n)) (emit (Print (msg_processing n)) s)"] False st
      by (simp add: expected_total_def)
  qed
qed

lemma main_total_chars:
  assumes "load_mapping a e = Inr pm"
    "select_slides (slides a) (length (slide_notes e)) = Inr sl"
  shows "total_chars (snd (main a e))
         = total_chars (snd (slide_loop a e pm (temp_dir_of a e) (container_format_of (output_file a))
                               sl (loop_start a e)))"
  using assms
  by (simp add: main_def loop_start_def finish_raises Let_def split: prod.splits option.splits)

lemma loop_start_total [simp]: "total_chars (loop_start a e) = 0"
  by (simp add: loop_start_def prepare_def make_dirs_def initial_def)

text \<open>
  C6, as amended. In a run whose selected slides all exist and in which no synthesis is
  cancelled or fails, the character counter ends as the sum of the lengths of the texts
  after substitution, over the selected slides whose notes are not blank.
\<close>

theorem total_chars_of_complete_run:
  assumes "load_mapping a e = Inr pm"
    "select_slides (slides a) (length (slide_notes e)) = Inr sl"
    "\<forall>n \<in> set sl. in_deck e n"
    "\<forall>n \<in> set sl. has_notes e n \<longrightarrow> synthesis_goes_through a e pm n"
  shows "total_chars (snd (main a e)) = expected_total e pm sl"
  using main_total_chars[OF assms(1,2)] loop_total[OF assms(3,4)] by simp

theorem total_chars_of_complete_run_witness:
  "total_chars (snd (main (cli_args None) (deck [''Hello'', whitespace_notes, ''World''] always_completed)))
     = expected_total (deck [''Hello'', whitespace_notes, ''World''] always_completed) [] [1, 2, 3]
   \<and> expected_total (deck [''Hello'', whitespace_notes, ''World''] always_completed) [] [1, 2, 3] = 10"
proof -
  let ?a = "cli_args None" and ?e = "deck [''Hello'', whitespace_notes, ''World''] always_completed"
  have sel: "select_slides (slides ?a) (length (slide_notes ?e)) = Inr [1, 2, 3]"
    by (simp add: default_run_facts select_slides_def upto_rec1)
  have ws: "strip whitespace_notes = []"
    by (simp add: whitespace_notes_def strip_def lstrip_def rstrip_def isspace_def code_def LF_def)
  have st: "strip ''Hello'' \<noteq> []" "strip ''World'' \<noteq> []"
    by (simp_all add: strip_def lstrip_def rstrip_def isspace_def code_def)
  have hn: "has_notes ?e 1" "\<not> has_notes ?e 2" "has_notes ?e 3"
    using ws st by (simp_all add: has_notes_def default_run_facts)
  have ind: "\<forall>n \<in> set [1, 2, 3]. in_deck ?e n"
    by (simp add: in_deck_def default_run_facts)
  have go: "\<forall>n \<in> set [1, 2, 3]. has_notes ?e n \<longrightarrow> synthesis_goes_through ?a ?e [] n"
    using hn(2)
    by (simp add: synthesis_goes_through_def default_run_facts plain_text_spoken always_completed_def)
  have ex: "expected_total ?e [] [1, 2, 3] = 10"
    using hn by (simp add: expected_total_def text_length_def default_run_facts plain_text_spoken)
  from total_chars_of_complete_run[OF default_run_facts(1) sel ind go] ex show ?thesis by simp
qed

text \<open>
  C6 as stated fails: both slides have notes and are selected, the synthesis of the
  first is cancelled, and the counter ends at 5, the length of the first text, while
  the sum over the selected slides with notes is 10.
\<close>

theorem cancelled_run_counts_one_slide:
  "total_chars (snd (main (cli_args None) (deck [''Hello'', ''World''] always_canceled))) = 5
   \<and> expected_total (deck [''Hello'', ''World''] always_canceled) [] [1, 2] = 10
   \<and> select_slides (slides (cli_args None)) (length (slide_notes (deck [''Hello'', ''World''] always_canceled)))
     = Inr [1, 2]"
proof -
  let ?a = "cli_args None" and ?e = "deck [''Hello'', ''World''] always_canceled"
  have c: "always_canceled 1 ''Hello'' = Canceled CancelError []"
    by (simp add: always_canceled_def)
  have sp: "spoken_text ?e [] (slide_notes ?e ! nat (1 - 1)) = Inr ''Hello''"
    by (simp add: default_run_facts plain_text_spoken)
  have az: "azure_result ?e 1 ''Hello'' = Canceled CancelError []"
    by (simp add: default_run_facts always_canceled_def)
  have ap: "api ?a = Azure" by (simp add: default_run_facts)
  have t: "total_chars (snd (slide_step ?a ?e [] temp_root ''mp4'' 1 (loop_start ?a ?e))) = 5"
    unfolding slide_step_canceled(4)[OF ap hello_has_notes(1) sp az] by simp
  have ex: "expected_total ?e [] [1, 2] = 10"
    using hello_has_notes[of always_canceled]
    by (simp add: expected_total_def text_length_def default_run_facts plain_text_spoken)
  have sel: "select_slides (slides ?a) (length (slide_notes ?e)) = Inr [1, 2]"
    by (simp add: default_run_facts select_slides_def upto_rec1)
  show ?thesis
    using t ex sel by (simp add: canceled_run[of always_canceled, OF c])
qed

section \<open>Pronunciation substitution: results\<close>

lemma ci_prefix_nth:
  assumes "ci_prefix w s" "i < length w"
  shows "i < length s" "to_lower (s ! i) = to_lower (w ! i)"
proof -
  from assms(1) obtain r where r: "map to_lower s = map to_lower w @ r"
    by (auto simp: ci_prefix_def lower_def prefix_def)
  then have "length s = length w + length r" by (metis length_append length_map)
  with assms(2) show l: "i < length s" by simp
  have "map to_lower s ! i = (map to_lower w @ r) ! i" using r by simp
  then show "to_lower (s ! i) = to_lower (w ! i)"
    using assms(2) l by (simp add: nth_append)
qed

lemma word_match_is_whole_word:
  assumes "word_edges w"
  shows "word_matches_at w prev s = whole_word_at w prev s"
proof (cases "ci_prefix w s")
  case False
  then show ?thesis by (simp add: word_matches_at_def whole_word_at_def)
next
  case True
  from assms have ne: "w \<noteq> []" and h: "isword (hd w)" and l: "isword (last w)"
    by (simp_all add: word_edges_def)
  have p0: "0 < length w" and pl: "length w - 1 < length w" using ne by simp_all
  have "isword (s ! 0)"
    using ci_prefix_nth(2)[OF True p0] h ne isword_ci[of "s ! 0" "w ! 0"] by (simp add: hd_conv_nth)
  moreover have "0 < length s" using ci_prefix_nth(1)[OF True p0] .
  ultimately have first: "wordy (char_at s 0)" by (simp add: char_at_def wordy_def)
  have "isword (s ! (length w - 1))"
    using ci_prefix_nth(2)[OF True pl] l ne isword_ci[of "s ! (length w - 1)" "w ! (length w - 1)"]
    by (simp add: last_conv_nth)
  moreover have "length w - 1 < length s" using ci_prefix_nth(1)[OF True pl] .
  ultimately have lst: "wordy (char_at s (length w - 1))" by (simp add: char_at_def wordy_def)
  show ?thesis
    using True ne first lst by (auto simp: word_matches_at_def whole_word_at_def at_boundary_def)
qed

lemma re_sub_scan_spec:
  "word_edges w \<Longrightarrow> re_sub_scan w (\<lambda>_. p) prev s = spec_replace_scan w p prev s"
proof (induction w p prev s rule: spec_replace_scan.induct)
  case (1 w p prev)
  then show ?case by (auto simp: word_matches_at_def ci_prefix_def lower_def word_edges_def)
next
  case (2 w p prev c cs)
  then show ?case
    by (simp add: word_match_is_whole_word word_edges_def)
qed

lemma re_sub_word_spec:
  assumes "word_edges w" "BSL \<notin> set p"
  shows "re_sub_word compile w p t = Inr (spec_replace w p t)"
  using assms by (simp add: re_sub_word_def spec_replace_def re_sub_scan_spec)

lemma substitute_spec:
  "list_all plain_entry pm \<Longrightarrow> substitute compile pm t = Inr (spec_substitute pm t)"
proof (induction pm arbitrary: t)
  case Nil
  show ?case by (simp add: spec_substitute_def)
next
  case (Cons entry pm)
  obtain w p where e: "entry = (w, p)" by (cases entry)
  from Cons.prems have pe: "plain_entry entry" and rest: "list_all plain_entry pm"
    by simp_all
  from pe e have "word_edges w" "BSL \<notin> set p"
    by (simp_all add: plain_entry_def)
  then show ?case
    using Cons.IH[OF rest, of "spec_replace w p t"] e
    by (simp add: re_sub_word_spec spec_substitute_def)
qed

lemma no_whole_word_unchanged:
  "(\<forall>i < length s. \<not> whole_word_at w (char_before prev s i) (drop i s))
   \<Longrightarrow> spec_replace_scan w p prev s = s"
proof (induction s arbitrary: prev)
  case Nil
  show ?case by simp
next
  case (Cons c cs)
  have here: "\<not> whole_word_at w prev (c # cs)"
    using Cons.prems[rule_format, of 0] by (simp add: char_before_def)
  have "\<not> whole_word_at w (char_before (Some c) cs i) (drop i cs)" if "i < length cs" for i
    using Cons.prems[rule_format, of "Suc i"] that
    by (cases i) (simp_all add: char_before_def)
  then have "spec_replace_scan w p (Some c) cs = cs" using Cons.IH by blast
  then show ?case using here by simp
qed


text \<open>
  C4, as amended. When every source word of the mapping begins and ends with a word
  character and no pronunciation contains a backslash, the substitution is the one the
  specification words: entry by entry in the order of the mapping, every whole-word
  occurrence of the source word, letter case ignored, becomes the pronunciation and
  everything else is copied. A text without a whole-word occurrence of the word is left
  as it is. With \<open>{"fdat": "effdutt"}\<close>, \<open>"The FDAT value"\<close> becomes
  \<open>"The effdutt value"\<close> and \<open>"FDATA"\<close> stays.
\<close>

theorem whole_word_substitution:
  assumes "list_all plain_entry pm"
  shows "substitute compile pm t = Inr (spec_substitute pm t)
         \<and> (\<forall>w p. plain_entry (w, p)
               \<and> (\<forall>i < length t. \<not> whole_word_at w (char_before None t i) (drop i t))
               \<longrightarrow> substitute compile [(w, p)] t = Inr t)
         \<and> substitute compile [(''fdat'', ''effdutt'')] ''The FDAT value'' = Inr ''The effdutt value''
         \<and> substitute compile [(''fdat'', ''effdutt'')] ''FDATA'' = Inr ''FDATA''"
proof -
  have a: "substitute compile pm t = Inr (spec_substitute pm t)"
    by (rule substitute_spec[OF assms])
  have b: "substitute compile [(w, p)] t = Inr t"
    if "plain_entry (w, p)"
      and "\<forall>i < length t. \<not> whole_word_at w (char_before None t i) (drop i t)" for w p
  proof -
    have "spec_replace w p t = t"
      unfolding spec_replace_def by (rule no_whole_word_unchanged[OF that(2)])
    moreover have "list_all plain_entry [(w, p)]" using that(1) by simp
    ultimately show ?thesis
      using substitute_spec[of "[(w, p)]" compile t] by (simp add: spec_substitute_def)
  qed
  have c: "substitute compile [(''fdat'', ''effdutt'')] ''The FDAT value'' = Inr ''The effdutt value''"
    by code_simp
  have d: "substitute compile [(''fdat'', ''effdutt'')] ''FDATA'' = Inr ''FDATA''"
    by code_simp
  from a b c d show ?thesis by blast
qed

theorem whole_word_substitution_witness:
  "substitute no_templates [(''fdat'', ''effdutt'')] ''The FDAT value''
     = Inr (spec_substitute [(''fdat'', ''effdutt'')] ''The FDAT value'')
   \<and> spec_substitute [(''fdat'', ''effdutt'')] ''The FDAT value'' = ''The effdutt value''"
proof -
  have p: "list_all plain_entry [(''fdat'', ''effdutt'')]" by code_simp
  have v: "spec_substitute [(''fdat'', ''effdutt'')] ''The FDAT value'' = ''The effdutt value''"
    by code_simp
  from whole_word_substitution[OF p, of no_templates "''The FDAT value''"] v
  show ?thesis by blast
qed

text \<open>
  C4 as stated fails for a source word that ends with a character that is no word
  character. The occurrence of \<open>c++\<close> in \<open>"I use C++ daily"\<close> stands between two
  spaces, and the specification's substitution replaces it; the program leaves the text
  as it is, because \<open>\b\<close> behind \<open>+\<close> asks for a word character to follow.
\<close>

theorem plus_sign_word_not_replaced:
  "substitute no_templates [(''c++'', ''cpp'')] ''I use C++ daily'' = Inr ''I use C++ daily''
   \<and> spec_substitute [(''c++'', ''cpp'')] ''I use C++ daily'' = ''I use cpp daily''"
  by code_simp

section \<open>Artifact paths: results\<close>

declare str_nat.simps [simp del]























section \<open>Update mode: results\<close>





lemma frame_fields [simp]:
  "frame td cf sl fs (s\<lparr>total_chars := x\<rparr>) = frame td cf sl fs s"
  "frame td cf sl fs (s\<lparr>slide_videos := v\<rparr>) = frame td cf sl fs s"
  by (simp_all add: frame_def)

lemma confined_quiet [simp]:
  "confined td cf sl (Print m)"
  "confined td cf sl (OpenPresentation f)"
  "confined td cf sl ClosePresentation"
  "confined td cf sl (RunSilence d (silence_file td))"
  by (simp_all add: confined_def touched_def owned_def)











end
